theory Spec2Isabelle
  imports Main
begin

section \<open>Strings as the program sees them\<close>

text \<open>
  A JavaScript string is modelled as a \<^typ>\<open>string\<close>: a list of code units below 256.
  Code units above 255 (for instance the further Unicode spaces that \<open>\s\<close> and
  \<open>trim\<close> know) are outside this model.
\<close>

definition isDigit :: "char \<Rightarrow> bool" where
  \<comment> \<open>the regular-expression class \<open>\d\<close>\<close>
  "isDigit c = (c \<in> set ''0123456789'')"

definition isSpace :: "char \<Rightarrow> bool" where
  \<comment> \<open>the class \<open>\s\<close>, which is also what \<open>trim\<close> strips: TAB, LF, VT, FF, CR, space, NBSP\<close>
  "isSpace c = ((of_char c :: nat) \<in> {9, 10, 11, 12, 13, 32, 160})"

definition isAlnum :: "char \<Rightarrow> bool" where
  \<comment> \<open>the class \<open>[A-Za-z0-9]\<close>\<close>
  "isAlnum c = (c \<in> set ''ABCDEFGHIJKLMNOPQRSTUVWXYZabcdefghijklmnopqrstuvwxyz0123456789'')"

definition trim :: "string \<Rightarrow> string" where
  "trim s = rev (dropWhile isSpace (rev (dropWhile isSpace s)))"

definition padStart :: "nat \<Rightarrow> char \<Rightarrow> string \<Rightarrow> string" where
  "padStart n c s = replicate (n - length s) c @ s"

definition startsWith :: "string \<Rightarrow> string \<Rightarrow> bool" where
  "startsWith s p = (take (length p) s = p)"

definition sliceLast :: "nat \<Rightarrow> string \<Rightarrow> string" where
  \<comment> \<open>\<open>s.slice(-n)\<close>: the last \<open>n\<close> characters, the whole string when it is shorter\<close>
  "sliceLast n s = drop (length s - n) s"

fun str_includes :: "string \<Rightarrow> string \<Rightarrow> bool" where
  \<comment> \<open>\<open>s.includes(t)\<close>\<close>
  "str_includes [] t = (t = [])"
| "str_includes (c # cs) t = (take (length t) (c # cs) = t \<or> str_includes cs t)"

fun split :: "char \<Rightarrow> string \<Rightarrow> string list" where
  \<comment> \<open>\<open>s.split(c)\<close>: never empty, \<open>''''.split(c)\<close> is one empty part\<close>
  "split c [] = [[]]"
| "split c (x # xs) =
     (if x = c then [] # split c xs
      else (case split c xs of p # ps \<Rightarrow> (x # p) # ps | [] \<Rightarrow> [[x]]))"

section \<open>The decoder of un-bracketed payloads\<close>

definition aiLengths :: "(string \<times> nat) list" where
  "aiLengths =
     [(''01'', 14), (''02'', 14), (''10'', 0), (''11'', 6), (''12'', 6), (''13'', 6),
      (''15'', 6), (''16'', 6), (''17'', 6), (''20'', 2), (''21'', 0), (''22'', 0),
      (''30'', 0), (''37'', 0), (''240'', 0), (''241'', 0), (''242'', 0), (''250'', 0),
      (''251'', 0)]"

definition recogniseAi :: "string \<Rightarrow> (string \<times> nat) option" where
  \<comment> \<open>the two lookups at a scan position: three characters first, then two\<close>
  "recogniseAi s =
     (case (if 3 \<le> length s then map_of aiLengths (take 3 s) else None) of
        Some n \<Rightarrow> Some (take 3 s, n)
      | None \<Rightarrow>
          (if 2 \<le> length s
           then (case map_of aiLengths (take 2 s) of
                   Some n \<Rightarrow> Some (take 2 s, n)
                 | None \<Rightarrow> None)
           else None))"

definition valueOf :: "nat \<Rightarrow> string \<Rightarrow> string" where
  \<comment> \<open>\<open>part.substring(valueStart, valueEnd)\<close>, given what follows the code\<close>
  "valueOf aiLen rest = (if aiLen > 0 then take aiLen rest else rest)"

function decodePart :: "string \<Rightarrow> string" where
  \<comment> \<open>the \<open>while\<close> loop over one part; the argument is \<open>part.substring(i)\<close>\<close>
  "decodePart s =
     (if s = [] then []
      else (case recogniseAi s of
              Some (ai, aiLen) \<Rightarrow>
                ''('' @ ai @ '')'' @ valueOf aiLen (drop (length ai) s)
                  @ decodePart (drop (length ai + length (valueOf aiLen (drop (length ai) s))) s)
            | None \<Rightarrow> decodePart (tl s)))"
  by pat_completeness auto

termination decodePart
proof (relation "measure length")
  show "wf (measure length)" by simp
next
  fix s :: string and x2 x y
  assume "s \<noteq> []" "recogniseAi s = Some x2" "(x, y) = x2"
  then have "2 \<le> length x \<and> length x \<le> length s"
    by (auto simp: recogniseAi_def split: option.splits if_splits)
  then show "(drop (length x + length (valueOf y (drop (length x) s))) s, s) \<in> measure length"
    by (simp, arith)
next
  fix s :: string
  assume "s \<noteq> []"
  then show "(tl s, s) \<in> measure length"
    by (cases s) simp_all
qed

definition convertRawToParenthesized :: "string \<Rightarrow> string" where
  "convertRawToParenthesized raw =
     (let result = concat (map decodePart (split (CHR ''|'') raw))
      in if result \<noteq> [] then result else raw)"

section \<open>Numbers that may be NaN\<close>

text \<open>
  The numbers of the date code are integers or \<open>NaN\<close>; \<open>NaN\<close> is \<open>None\<close>. Every
  comparison with \<open>NaN\<close> is false.
\<close>

type_synonym jsnum = "int option"

definition numLt :: "jsnum \<Rightarrow> int \<Rightarrow> bool" where
  "numLt a b = (case a of Some x \<Rightarrow> x < b | None \<Rightarrow> False)"

definition numGt :: "jsnum \<Rightarrow> int \<Rightarrow> bool" where
  "numGt a b = (case a of Some x \<Rightarrow> x > b | None \<Rightarrow> False)"

definition digitVal :: "char \<Rightarrow> nat" where
  "digitVal c = of_char c - 48"

definition digitsVal :: "string \<Rightarrow> nat" where
  "digitsVal ds = foldl (\<lambda>acc c. 10 * acc + digitVal c) 0 ds"

definition parseInt10 :: "string \<Rightarrow> jsnum" where
  \<comment> \<open>\<open>parseInt(s, 10)\<close>: leading white space, an optional sign, then the longest run of
      decimal digits; \<open>NaN\<close> when that run is empty\<close>
  "parseInt10 s =
     (let t = dropWhile isSpace s;
          sgn = (if startsWith t ''-'' then - 1 else 1);
          u = (if startsWith t ''-'' \<or> startsWith t ''+'' then tl t else t);
          z = takeWhile isDigit u
      in if z = [] then None else Some (sgn * int (digitsVal z)))"

definition digitChar :: "nat \<Rightarrow> char" where
  \<comment> \<open>the decimal digit of a number below ten\<close>
  "digitChar d = ''0123456789'' ! d"

function showNat :: "nat \<Rightarrow> string" where
  "showNat n =
     (if n < 10 then [digitChar n] else showNat (n div 10) @ [digitChar (n mod 10)])"
  by pat_completeness auto
termination
  by (relation "measure id") auto

definition jsString :: "jsnum \<Rightarrow> string" where
  \<comment> \<open>\<open>String(x)\<close> and the interpolation of a number into a template\<close>
  "jsString x =
     (case x of
        None \<Rightarrow> ''NaN''
      | Some i \<Rightarrow> (if i < 0 then ''-'' @ showNat (nat (- i)) else showNat (nat i)))"

section \<open>Dates\<close>

definition isLeapYear :: "int \<Rightarrow> bool" where
  "isLeapYear y = (y mod 4 = 0 \<and> (y mod 100 \<noteq> 0 \<or> y mod 400 = 0))"

definition daysInMonth :: "int \<Rightarrow> int \<Rightarrow> int" where
  \<comment> \<open>the Gregorian calendar; the month is 1 to 12\<close>
  "daysInMonth y m =
     (if m = 2 then (if isLeapYear y then 29 else 28)
      else if m = 4 \<or> m = 6 \<or> m = 9 \<or> m = 11 then 30
      else 31)"

definition zerothDay :: "jsnum \<Rightarrow> jsnum \<Rightarrow> jsnum" where
  \<comment> \<open>\<open>new Date(year, monthIndex, 0).getDate()\<close>. The month index counts from 0 and carries
      into the year; a year 0 to 99 means 1900 and later; day 0 is the day before the first
      of that month, that is the last day of the month before.\<close>
  "zerothDay year monthIndex =
     (case (year, monthIndex) of
        (Some y0, Some mi) \<Rightarrow>
          (let y = (if 0 \<le> y0 \<and> y0 \<le> 99 then 1900 + y0 else y0);
               ym = y + mi div 12;
               mn = mi mod 12
           in Some (if mn = 0 then daysInMonth (ym - 1) 12 else daysInMonth ym mn))
      | _ \<Rightarrow> None)"

definition substring :: "nat \<Rightarrow> nat \<Rightarrow> string \<Rightarrow> string" where
  \<comment> \<open>\<open>s.substring(a, b)\<close> for \<open>a \<le> b\<close>\<close>
  "substring a b s = take (b - a) (drop a s)"

definition parseGS1Date :: "string \<Rightarrow> string \<times> string" where
  \<comment> \<open>the pair is \<open>(iso, formatted)\<close>\<close>
  "parseGS1Date dateStr =
     (if dateStr = [] \<or> length dateStr \<noteq> 6 then ([], [])
      else
        (let yy = parseInt10 (substring 0 2 dateStr);
             mm = parseInt10 (substring 2 4 dateStr);
             dd0 = parseInt10 (substring 4 6 dateStr);
             year = map_option (\<lambda>y. 2000 + y) yy;
             dd = (if dd0 = Some 0 then zerothDay year mm else dd0)
         in if numLt mm 1 \<or> numGt mm 12 \<or> numLt dd 1 \<or> numGt dd 31 then ([], [])
            else
              (jsString year @ ''-'' @ padStart 2 (CHR ''0'') (jsString mm) @ ''-''
                 @ padStart 2 (CHR ''0'') (jsString dd),
               padStart 2 (CHR ''0'') (jsString dd) @ ''/''
                 @ padStart 2 (CHR ''0'') (jsString mm) @ ''/'' @ jsString year)))"

text \<open>
  The clock and the platform's date parser are parameters: \<open>todayMidnight\<close> is
  \<open>new Date()\<close> after \<open>setHours(0, 0, 0, 0)\<close>, in milliseconds; \<open>dateMidnight iso\<close> is
  \<open>new Date(iso)\<close> after \<open>setHours(0, 0, 0, 0)\<close>, in milliseconds, and \<open>None\<close> when the
  platform answers Invalid Date (its time value is \<open>NaN\<close>). The two counts are
  integers, so their difference is one, and which side of 0 and of 30 days its quotient by
  the milliseconds of a day falls on does not depend on the rounding of the division.
\<close>

record env =
  todayMidnight :: int
  dateMidnight :: "string \<Rightarrow> int option"

definition ceilDiv :: "int \<Rightarrow> int \<Rightarrow> int" where
  \<comment> \<open>\<open>Math.ceil(a / b)\<close> for \<open>b > 0\<close>\<close>
  "ceilDiv a b = - ((- a) div b)"

definition statusOfDiff :: "int \<Rightarrow> string" where
  \<comment> \<open>the three last lines of \<open>getExpiryStatus\<close>\<close>
  "statusOfDiff diffDays =
     (if diffDays < 0 then ''expired'' else if diffDays \<le> 30 then ''soon'' else ''ok'')"

definition diffDaysOf :: "env \<Rightarrow> int \<Rightarrow> int" where
  "diffDaysOf e expiryMs = ceilDiv (expiryMs - todayMidnight e) (1000 * 60 * 60 * 24)"

definition getExpiryStatus :: "env \<Rightarrow> string \<Rightarrow> string" where
  \<comment> \<open>with an Invalid Date the difference is \<open>NaN\<close>, both comparisons are false and the
      answer is \<open>ok\<close>\<close>
  "getExpiryStatus e isoDate =
     (if isoDate = [] then ''missing''
      else (case dateMidnight e isoDate of
              None \<Rightarrow> ''ok''
            | Some expiryMs \<Rightarrow> statusOfDiff (diffDaysOf e expiryMs)))"

section \<open>The field extractor\<close>

text \<open>
  \<open>str.match(re)\<close> with a regular expression that has no flags finds the leftmost position
  where the expression matches. \<open>searchFrom m s\<close> tries the anchored matcher \<open>m\<close> at every
  position of \<open>s\<close> from the left, the end of the string included.
\<close>

fun searchFrom :: "(string \<Rightarrow> 'a option) \<Rightarrow> string \<Rightarrow> 'a option" where
  "searchFrom m [] = m []"
| "searchFrom m (c # cs) = (case m (c # cs) of Some r \<Rightarrow> Some r | None \<Rightarrow> searchFrom m cs)"

definition afterLit :: "string \<Rightarrow> string \<Rightarrow> string option" where
  \<comment> \<open>a literal at the start of the string; what follows it\<close>
  "afterLit lit s = (if startsWith s lit then Some (drop (length lit) s) else None)"

definition digitsExactly :: "nat \<Rightarrow> string \<Rightarrow> string option" where
  \<comment> \<open>\<open>(\d{n})\<close> at the start of the string: nothing is asked of what follows\<close>
  "digitsExactly n s =
     (if n \<le> length s \<and> list_all isDigit (take n s) then Some (take n s) else None)"

definition pat01 :: "string \<Rightarrow> string option" where
  \<comment> \<open>\<open>/\(01\)(\d{14})/\<close>\<close>
  "pat01 s = (case afterLit ''(01)'' s of Some r \<Rightarrow> digitsExactly 14 r | None \<Rightarrow> None)"

definition pat01short :: "string \<Rightarrow> string option" where
  \<comment> \<open>\<open>/\(01\)(\d{12,13})/\<close>: greedy, thirteen digits when there are thirteen\<close>
  "pat01short s =
     (case afterLit ''(01)'' s of
        Some r \<Rightarrow>
          (case digitsExactly 13 r of Some d \<Rightarrow> Some d | None \<Rightarrow> digitsExactly 12 r)
      | None \<Rightarrow> None)"

definition pat17 :: "string \<Rightarrow> string option" where
  \<comment> \<open>\<open>/\(17\)(\d{6})/\<close>\<close>
  "pat17 s = (case afterLit ''(17)'' s of Some r \<Rightarrow> digitsExactly 6 r | None \<Rightarrow> None)"

definition pat30 :: "string \<Rightarrow> string option" where
  \<comment> \<open>\<open>/\(30\)(\d+)/\<close>: greedy, the whole run of digits\<close>
  "pat30 s =
     (case afterLit ''(30)'' s of
        Some r \<Rightarrow> (if takeWhile isDigit r = [] then None else Some (takeWhile isDigit r))
      | None \<Rightarrow> None)"

definition isValueChar :: "char \<Rightarrow> bool" where
  \<comment> \<open>the class \<open>[A-Za-z0-9\-\/\.\s]\<close>\<close>
  "isValueChar c = (isAlnum c \<or> c = CHR ''-'' \<or> c = CHR ''/'' \<or> c = CHR ''.'' \<or> isSpace c)"

definition aiAhead :: "string \<Rightarrow> bool" where
  \<comment> \<open>the lookahead \<open>(?=\([0-9]{2}\)|$)\<close>\<close>
  "aiAhead s =
     ((case s of
         a # b # c # d # _ \<Rightarrow> a = CHR ''('' \<and> isDigit b \<and> isDigit c \<and> d = CHR '')''
       | _ \<Rightarrow> False)
      \<or> s = [])"

fun lazyValue :: "string \<Rightarrow> string \<Rightarrow> string option" where
  \<comment> \<open>\<open>([A-Za-z0-9\-\/\.\s]+?)\<close> before the lookahead: lazy, so the lookahead is tried as
      soon as one character is taken and one more character is taken only when it fails.
      The first argument is what has been taken.\<close>
  "lazyValue acc [] = (if acc \<noteq> [] \<and> aiAhead [] then Some acc else None)"
| "lazyValue acc (c # cs) =
     (if acc \<noteq> [] \<and> aiAhead (c # cs) then Some acc
      else if isValueChar c then lazyValue (acc @ [c]) cs
      else None)"

definition pat10 :: "string \<Rightarrow> string option" where
  \<comment> \<open>\<open>/\(10\)([A-Za-z0-9\-\/\.\s]+?)(?=\([0-9]{2}\)|$)/\<close>\<close>
  "pat10 s = (case afterLit ''(10)'' s of Some r \<Rightarrow> lazyValue [] r | None \<Rightarrow> None)"

definition pat21 :: "string \<Rightarrow> string option" where
  \<comment> \<open>\<open>/\(21\)([A-Za-z0-9\-\/\.\s]+?)(?=\([0-9]{2}\)|$)/\<close>\<close>
  "pat21 s = (case afterLit ''(21)'' s of Some r \<Rightarrow> lazyValue [] r | None \<Rightarrow> None)"

record scan =
  valid :: bool
  raw :: string
  gtin14 :: string
  gtin13 :: string
  expiry :: string
  expiryFormatted :: string
  expiryStatus :: string
  batch :: string
  serial :: string
  qty :: string
  productName :: string
  matchType :: string
  error :: "string option"

text \<open>
  What \<open>parseGs1\<close> returns: the early return is the object \<open>{valid: false, error: ...}\<close>,
  which has no other field; every other return is a full record.
\<close>

datatype parsed = EarlyInvalid string | Result scan

fun parsedValid :: "parsed \<Rightarrow> bool" where
  "parsedValid (EarlyInvalid e) = False"
| "parsedValid (Result r) = valid r"

fun parsedError :: "parsed \<Rightarrow> string option" where
  "parsedError (EarlyInvalid e) = Some e"
| "parsedError (Result r) = error r"

fun parsedMatchType :: "parsed \<Rightarrow> string option" where
  \<comment> \<open>\<open>None\<close> is \<open>undefined\<close>: the object has no such field\<close>
  "parsedMatchType (EarlyInvalid e) = None"
| "parsedMatchType (Result r) = Some (matchType r)"

datatype jsvalue = JsString string | NotAString

definition cleanInput :: "string \<Rightarrow> string" where
  \<comment> \<open>\<open>cleanedRaw\<close>: trimmed, the group separator turned into a bar, and decoded when no
      bracket is there\<close>
  "cleanInput rawStr =
     (let c = map (\<lambda>x. if x = CHR 0x1D then CHR ''|'' else x) (trim rawStr)
      in if CHR ''('' \<in> set c then c else convertRawToParenthesized c)"

definition gtinFields :: "string \<Rightarrow> string \<times> string" where
  \<comment> \<open>the pair is \<open>(gtin14, gtin13)\<close>\<close>
  "gtinFields cleanedRaw =
     (case searchFrom pat01 cleanedRaw of
        Some g \<Rightarrow> (g, if startsWith g ''0'' then drop 1 g else g)
      | None \<Rightarrow>
          (case searchFrom pat01short cleanedRaw of
             Some sh \<Rightarrow>
               (padStart 14 (CHR ''0'') (padStart 13 (CHR ''0'') sh), padStart 13 (CHR ''0'') sh)
           | None \<Rightarrow> ([], [])))"

definition expiryFields :: "env \<Rightarrow> string \<Rightarrow> string \<times> string \<times> string" where
  \<comment> \<open>the triple is \<open>(expiry, expiryFormatted, expiryStatus)\<close>\<close>
  "expiryFields e cleanedRaw =
     (case searchFrom pat17 cleanedRaw of
        Some d \<Rightarrow>
          (fst (parseGS1Date d), snd (parseGS1Date d), getExpiryStatus e (fst (parseGS1Date d)))
      | None \<Rightarrow> ([], [], ''missing''))"

definition parseGs1 :: "env \<Rightarrow> jsvalue \<Rightarrow> parsed" where
  "parseGs1 e inp =
     (case inp of
        NotAString \<Rightarrow> EarlyInvalid ''Empty or invalid input''
      | JsString rawStr \<Rightarrow>
          (if rawStr = [] then EarlyInvalid ''Empty or invalid input''
           else
             (let cleanedRaw = cleanInput rawStr;
                  g = gtinFields cleanedRaw;
                  x = expiryFields e cleanedRaw;
                  noGtin = (fst g = [] \<and> snd g = [])
              in Result
                   \<lparr>valid = \<not> noGtin,
                    raw = rawStr,
                    gtin14 = fst g,
                    gtin13 = snd g,
                    expiry = fst x,
                    expiryFormatted = fst (snd x),
                    expiryStatus = snd (snd x),
                    batch = (case searchFrom pat10 cleanedRaw of Some b \<Rightarrow> trim b | None \<Rightarrow> []),
                    serial = (case searchFrom pat21 cleanedRaw of Some b \<Rightarrow> trim b | None \<Rightarrow> []),
                    qty = (case searchFrom pat30 cleanedRaw of Some q \<Rightarrow> q | None \<Rightarrow> ''1''),
                    productName = [],
                    matchType = (if noGtin then ''INVALID'' else ''NONE''),
                    error = (if noGtin then Some ''No valid GTIN found'' else None)\<rparr>)))"

section \<open>The master index and the matcher\<close>

text \<open>
  A \<open>Map\<close> keeps its keys in the order of their first insertion; setting a key that is
  there keeps its place. It is an association list with distinct keys.
\<close>

fun mapSet :: "'k \<Rightarrow> 'v \<Rightarrow> ('k \<times> 'v) list \<Rightarrow> ('k \<times> 'v) list" where
  "mapSet k v [] = [(k, v)]"
| "mapSet k v ((k', v') # m) = (if k' = k then (k, v) # m else (k', v') # mapSet k v m)"

record index =
  exact :: "(string \<times> string) list"
  last8 :: "(string \<times> (string \<times> string) list) list"

record item =
  item_gtin :: string
  item_name :: string

definition addItem :: "index \<Rightarrow> item \<Rightarrow> index" where
  \<comment> \<open>the body of the loop of \<open>buildMasterIndex\<close>\<close>
  "addItem idx it =
     (let gtin = padStart 14 (CHR ''0'') (filter isDigit (item_gtin it));
          name = item_name it;
          ex1 = mapSet gtin name (exact idx);
          ex2 = (if startsWith gtin ''0'' then mapSet (drop 1 gtin) name ex1 else ex1);
          l8 = sliceLast 8 gtin;
          bucket = (case map_of (last8 idx) l8 of Some b \<Rightarrow> b | None \<Rightarrow> [])
      in \<lparr>exact = ex2, last8 = mapSet l8 (bucket @ [(gtin, name)]) (last8 idx)\<rparr>)"

definition buildMasterIndex :: "item list \<Rightarrow> index" where
  "buildMasterIndex data = foldl addItem \<lparr>exact = [], last8 = []\<rparr> data"

definition seq6Windows :: "string \<Rightarrow> string list" where
  \<comment> \<open>\<open>last10.substring(i, i + 6)\<close> for \<open>i\<close> from 0 to \<open>last10.length - 6\<close>\<close>
  "seq6Windows last10 = map (\<lambda>i. substring i (i + 6) last10) [0 ..< length last10 - 5]"

definition seq6Collect ::
  "string \<Rightarrow> (string \<times> string) list \<Rightarrow> string \<times> string \<Rightarrow> (string \<times> string) list" where
  \<comment> \<open>the body of the inner loop: one entry of the exact map against one window\<close>
  "seq6Collect seq6 seq6Matches entry =
     (if str_includes (fst entry) seq6 \<and> \<not> list_ex (\<lambda>m. fst m = fst entry) seq6Matches
      then seq6Matches @ [entry] else seq6Matches)"

definition seq6MatchesOf :: "string \<Rightarrow> (string \<times> string) list \<Rightarrow> (string \<times> string) list" where
  \<comment> \<open>the two nested loops that fill \<open>seq6Matches\<close>: every window, against every entry
      of the exact map in its order\<close>
  "seq6MatchesOf g14 ex =
     foldl (\<lambda>acc seq6. foldl (seq6Collect seq6) acc ex) [] (seq6Windows (sliceLast 10 g14))"

definition seq6Tier :: "string \<Rightarrow> (string \<times> string) list \<Rightarrow> string \<times> string" where
  \<comment> \<open>the last tier of \<open>matchProduct\<close>; the pair is \<open>(name, matchType)\<close>\<close>
  "seq6Tier g14 ex =
     (let seq6Matches = seq6MatchesOf g14 ex
      in if length seq6Matches = 1 then (snd (hd seq6Matches), ''SEQ6'')
         else if length seq6Matches > 1 then ([], ''AMBIGUOUS-SEQ6'')
         else ([], ''NONE''))"

definition matchProduct :: "parsed \<Rightarrow> index option \<Rightarrow> string \<times> string" where
  \<comment> \<open>the pair is \<open>(name, matchType)\<close>; the index \<open>None\<close> is \<open>null\<close>\<close>
  "matchProduct p idx =
     (case p of
        EarlyInvalid e \<Rightarrow> ([], ''INVALID'')
      | Result r \<Rightarrow>
          (if \<not> valid r then ([], ''INVALID'')
           else
             (case idx of
                None \<Rightarrow> ([], ''NONE'')
              | Some ix \<Rightarrow>
                  (if exact ix = [] then ([], ''NONE'')
                   else
                     (case map_of (exact ix) (gtin14 r) of
                        Some n \<Rightarrow> (n, ''EXACT'')
                      | None \<Rightarrow>
                          (case map_of (exact ix) (gtin13 r) of
                             Some n \<Rightarrow> (n, ''EXACT'')
                           | None \<Rightarrow>
                               (case map_of (last8 ix) (sliceLast 8 (gtin14 r)) of
                                  Some [m] \<Rightarrow> (snd m, ''LAST8'')
                                | Some (m # m' # ms) \<Rightarrow> ([], ''AMBIGUOUS-LAST8'')
                                | _ \<Rightarrow> seq6Tier (gtin14 r) (exact ix))))))))"

section \<open>Definitions used to state the properties\<close>

text \<open>The order in which the statuses follow one another as the expiry date moves away.\<close>

definition statusRank :: "string \<Rightarrow> nat" where
  "statusRank s = (if s = ''expired'' then 0 else if s = ''soon'' then 1 else if s = ''ok'' then 2 else 3)"

text \<open>
  The codes of the dictionary that the extractor has no pattern for, each with the length
  the dictionary gives it (0 for a variable length).
\<close>

definition otherCodeLengths :: "(string \<times> nat) list" where
  "otherCodeLengths =
     [(''02'', 14), (''11'', 6), (''12'', 6), (''13'', 6), (''15'', 6), (''16'', 6),
      (''20'', 2), (''22'', 0), (''37'', 0), (''240'', 0), (''241'', 0), (''242'', 0),
      (''250'', 0), (''251'', 0)]"

text \<open>A clock at the epoch, whose date parser knows two dates.\<close>

definition sampleEnv :: env where
  "sampleEnv = \<lparr>todayMidnight = 0,
      dateMidnight = (\<lambda>s. if s = ''1969-12-31'' then Some (- 86400000)
                           else if s = ''1970-02-10'' then Some (40 * 86400000) else None)\<rparr>"

text \<open>Two catalogs: one product, and two products that share their last eight digits.\<close>

definition catalogOne :: "item list" where
  "catalogOne = [\<lparr>item_gtin = ''6297000001234'', item_name = ''Panadol''\<rparr>]"

definition catalogTwo :: "item list" where
  "catalogTwo = [\<lparr>item_gtin = ''06297000001234'', item_name = ''Panadol''\<rparr>,
                 \<lparr>item_gtin = ''06111100001234'', item_name = ''Brufen''\<rparr>]"

text \<open>The scan that the extractor returns for \<open>(01)\<close> followed by the fourteen digits \<open>g\<close>.\<close>

definition scanOf :: "string \<Rightarrow> scan" where
  "scanOf g = \<lparr>valid = True, raw = ''(01)'' @ g, gtin14 = g,
      gtin13 = (if startsWith g ''0'' then drop 1 g else g),
      expiry = [], expiryFormatted = [], expiryStatus = ''missing'', batch = [], serial = [],
      qty = ''1'', productName = [], matchType = ''NONE'', error = None\<rparr>"

text \<open>
  The keys of the exact map that contain one of the six-digit windows of the last ten
  digits of a GTIN.
\<close>

definition windowKeys :: "string \<Rightarrow> (string \<times> string) list \<Rightarrow> string set" where
  "windowKeys g14 ex =
     {k \<in> fst ` set ex. \<exists>w \<in> set (seq6Windows (sliceLast 10 g14)). str_includes k w}"

text \<open>
  A field of an un-bracketed payload is a code and its value. It is well formed, for a
  fixed-length code, when the dictionary gives the code a positive length and the value is
  that many digits. The payload writes the fields one after the other; the bracketed
  string writes each code in brackets.
\<close>

definition wellFormedField :: "string \<times> string \<Rightarrow> bool" where
  "wellFormedField f =
     (case map_of aiLengths (fst f) of
        Some n \<Rightarrow> 0 < n \<and> length (snd f) = n \<and> list_all isDigit (snd f)
      | None \<Rightarrow> False)"

definition payload :: "(string \<times> string) list \<Rightarrow> string" where
  "payload fs = concat (map (\<lambda>f. fst f @ snd f) fs)"

definition bracketed :: "(string \<times> string) list \<Rightarrow> string" where
  "bracketed fs = concat (map (\<lambda>f. ''('' @ fst f @ '')'' @ snd f) fs)"

text \<open>A result with its \<open>raw\<close> field replaced: the other fields are what is compared.\<close>

fun withRaw :: "string \<Rightarrow> parsed \<Rightarrow> parsed" where
  "withRaw x (Result r) = Result (r\<lparr>raw := x\<rparr>)"
| "withRaw x (EarlyInvalid e) = EarlyInvalid e"

text \<open>The characters of a bracketed string of well-formed fields.\<close>

definition plainChar :: "char \<Rightarrow> bool" where
  "plainChar c = (isDigit c \<or> c = CHR ''('' \<or> c = CHR '')'')"

text \<open>The milliseconds of a day.\<close>

definition msPerDay :: int where
  "msPerDay = 1000 * 60 * 60 * 24"

text \<open>
  \<open>startsGtin n t\<close>: the string \<open>t\<close> starts with \<open>(01)\<close> followed by at least \<open>n\<close> digits.
  With \<open>drop i s\<close> for \<open>t\<close> it says so of the position \<open>i\<close> of \<open>s\<close>.
\<close>

definition startsGtin :: "nat \<Rightarrow> string \<Rightarrow> bool" where
  "startsGtin n t = (\<exists>d r. t = ''(01)'' @ d @ r \<and> length d = n \<and> list_all isDigit d)"

section \<open>Properties\<close>

subsection \<open>The expiry classifier\<close>

text \<open>
  C8: for a fixed today, the status is monotone in the distance from today to the expiry:
  an expiry that is not earlier never has an earlier status in the order \<open>expired\<close>,
  \<open>soon\<close>, \<open>ok\<close>. The status is \<open>expired\<close> when the expiry is a day or more before
  today's midnight, \<open>soon\<close> from there up to thirty days after it, \<open>ok\<close> beyond; for a
  difference of a whole number \<open>k\<close> of days that is \<open>k < 0\<close>, \<open>0 \<le> k \<le> 30\<close> and
  \<open>k > 30\<close>.
\<close>

theorem getExpiryStatus_monotone_in_time:
  assumes "iso1 \<noteq> []" "iso2 \<noteq> []"
    and "dateMidnight e iso1 = Some t1" "dateMidnight e iso2 = Some t2"
    and "t1 \<le> t2"
  shows "statusRank (getExpiryStatus e iso1) \<le> statusRank (getExpiryStatus e iso2)
       \<and> (getExpiryStatus e iso1 = ''expired'' \<longleftrightarrow> t1 - todayMidnight e \<le> - msPerDay)
       \<and> (getExpiryStatus e iso1 = ''soon''
            \<longleftrightarrow> - msPerDay < t1 - todayMidnight e \<and> t1 - todayMidnight e \<le> 30 * msPerDay)
       \<and> (getExpiryStatus e iso1 = ''ok'' \<longleftrightarrow> 30 * msPerDay < t1 - todayMidnight e)
       \<and> (\<forall>k. t1 = todayMidnight e + k * msPerDay
              \<longrightarrow> getExpiryStatus e iso1
                    = (if k < 0 then ''expired'' else if k \<le> 30 then ''soon'' else ''ok''))"
proof -
  have lt: "diffDaysOf e t < 0 \<longleftrightarrow> t - todayMidnight e \<le> - msPerDay" for t
    unfolding diffDaysOf_def ceilDiv_def msPerDay_def by simp linarith
  have le: "diffDaysOf e t \<le> 30 \<longleftrightarrow> t - todayMidnight e \<le> 30 * msPerDay" for t
    unfolding diffDaysOf_def ceilDiv_def msPerDay_def by simp linarith
  have whole: "diffDaysOf e (todayMidnight e + k * msPerDay) = k" for k
    unfolding diffDaysOf_def ceilDiv_def msPerDay_def by simp
  have s: "getExpiryStatus e iso1 = statusOfDiff (diffDaysOf e t1)"
    "getExpiryStatus e iso2 = statusOfDiff (diffDaysOf e t2)"
    using assms(1-4) by (simp_all add: getExpiryStatus_def)
  have st: "statusOfDiff (diffDaysOf e t) =
      (if t - todayMidnight e \<le> - msPerDay then ''expired''
       else if t - todayMidnight e \<le> 30 * msPerDay then ''soon'' else ''ok'')" for t
    unfolding statusOfDiff_def lt le by simp
  have pos: "0 < msPerDay" by (simp add: msPerDay_def)
  have 1: "statusRank (getExpiryStatus e iso1) \<le> statusRank (getExpiryStatus e iso2)"
    unfolding s st using assms(5) pos by (auto simp: statusRank_def)
  have 2: "getExpiryStatus e iso1 = ''expired'' \<longleftrightarrow> t1 - todayMidnight e \<le> - msPerDay"
    unfolding s st by simp
  have 3: "getExpiryStatus e iso1 = ''soon''
            \<longleftrightarrow> - msPerDay < t1 - todayMidnight e \<and> t1 - todayMidnight e \<le> 30 * msPerDay"
    unfolding s st using pos by auto
  have 4: "getExpiryStatus e iso1 = ''ok'' \<longleftrightarrow> 30 * msPerDay < t1 - todayMidnight e"
    unfolding s st using pos by auto
  have 5: "getExpiryStatus e iso1
                    = (if k < 0 then ''expired'' else if k \<le> 30 then ''soon'' else ''ok'')"
    if "t1 = todayMidnight e + k * msPerDay" for k
    unfolding s that whole by (simp add: statusOfDiff_def)
  from 1 2 3 4 5 show ?thesis by blast
qed

theorem getExpiryStatus_monotone_in_time_witness:
  "statusRank (getExpiryStatus sampleEnv ''1969-12-31'')
     \<le> statusRank (getExpiryStatus sampleEnv ''1970-02-10'')
   \<and> getExpiryStatus sampleEnv ''1969-12-31'' = ''expired''
   \<and> getExpiryStatus sampleEnv ''1970-02-10'' = ''ok''"
proof -
  have d: "dateMidnight sampleEnv ''1969-12-31'' = Some (- 86400000)"
    "dateMidnight sampleEnv ''1970-02-10'' = Some (40 * 86400000)"
    "todayMidnight sampleEnv = 0"
    by (simp_all add: sampleEnv_def)
  have le: "- 86400000 \<le> (40 * 86400000 :: int)" by simp
  have n: "''1969-12-31'' \<noteq> []" "''1970-02-10'' \<noteq> []" by simp_all
  note w1 = getExpiryStatus_monotone_in_time [OF n(1) n(2) d(1) d(2) le]
  note w2 = getExpiryStatus_monotone_in_time [OF n(2) n(2) d(2) d(2) order_refl]
  from w1 have a: "statusRank (getExpiryStatus sampleEnv ''1969-12-31'')
       \<le> statusRank (getExpiryStatus sampleEnv ''1970-02-10'')"
    by blast
  from w1 have "getExpiryStatus sampleEnv ''1969-12-31'' = ''expired''
      \<longleftrightarrow> - 86400000 - todayMidnight sampleEnv \<le> - msPerDay"
    by blast
  then have b: "getExpiryStatus sampleEnv ''1969-12-31'' = ''expired''"
    by (simp add: d msPerDay_def)
  from w2 have "getExpiryStatus sampleEnv ''1970-02-10'' = ''ok''
      \<longleftrightarrow> 30 * msPerDay < 40 * 86400000 - todayMidnight sampleEnv"
    by blast
  then have c: "getExpiryStatus sampleEnv ''1970-02-10'' = ''ok''"
    by (simp add: d msPerDay_def)
  from a b c show ?thesis by simp
qed

subsection \<open>The decoder\<close>

lemma decodePart_recognised:
  assumes "recogniseAi s = Some (ai, n)"
  shows "decodePart s = ''('' @ ai @ '')'' @ valueOf n (drop (length ai) s)
           @ decodePart (drop (length ai + length (valueOf n (drop (length ai) s))) s)"
proof -
  from assms have "s \<noteq> []" by (auto simp: recogniseAi_def)
  with assms show ?thesis by (subst decodePart.simps) simp
qed

lemma recogniseAi_two:
  assumes "map_of aiLengths [a, b] = Some n"
  shows "recogniseAi (a # b # rest) = Some ([a, b], n)"
proof (cases rest)
  case Nil
  with assms show ?thesis by (simp add: recogniseAi_def)
next
  case (Cons x xs)
  have "map_of aiLengths [a, b, x] = None \<or> map_of aiLengths [a, b] = None"
    by (simp add: aiLengths_def)
  with assms Cons show ?thesis by (auto simp add: recogniseAi_def)
qed

lemma recogniseAi_three:
  assumes "map_of aiLengths [a, b, c] = Some n"
  shows "recogniseAi (a # b # c # rest) = Some ([a, b, c], n)"
  using assms by (simp add: recogniseAi_def)

lemma decode_code:
  assumes "map_of aiLengths c = Some n" "length c = 2 \<or> length c = 3"
  shows "decodePart (c @ rest) = ''('' @ c @ '')'' @ valueOf n rest
           @ decodePart (drop (length (valueOf n rest)) rest)"
proof -
  have "recogniseAi (c @ rest) = Some (c, n)"
  proof (cases "length c = 2")
    case True
    then obtain a b where "c = [a, b]"
      by (cases c; cases "tl c"; cases "tl (tl c)") auto
    with assms show ?thesis using recogniseAi_two by simp
  next
    case False
    with assms have "length c = 3" by simp
    then obtain a b d where "c = [a, b, d]"
      by (cases c; cases "tl c"; cases "tl (tl c)"; cases "tl (tl (tl c))") auto
    with assms show ?thesis using recogniseAi_three by simp
  qed
  from decodePart_recognised [OF this] show ?thesis by simp
qed

lemma decodePart_Nil: "decodePart [] = []"
  by (subst decodePart.simps) simp

lemma decode_fixed:
  assumes "map_of aiLengths c = Some n" "length c = 2 \<or> length c = 3" "0 < n" "length v = n"
  shows "decodePart (c @ v @ rest) = ''('' @ c @ '')'' @ v @ decodePart rest"
proof -
  from assms(3,4) have "valueOf n (v @ rest) = v" by (simp add: valueOf_def)
  with decode_code [OF assms(1,2), of "v @ rest"] show ?thesis by simp
qed

lemma decode_fixed_short:
  assumes "map_of aiLengths c = Some n" "length c = 2 \<or> length c = 3" "0 < n" "length rest < n"
  shows "decodePart (c @ rest) = ''('' @ c @ '')'' @ rest"
proof -
  from assms(3,4) have "valueOf n rest = rest" by (simp add: valueOf_def)
  with decode_code [OF assms(1,2), of rest] show ?thesis by (simp add: decodePart_Nil)
qed

lemma decode_variable:
  assumes "map_of aiLengths c = Some 0" "length c = 2 \<or> length c = 3"
  shows "decodePart (c @ rest) = ''('' @ c @ '')'' @ rest"
proof -
  have "valueOf 0 rest = rest" by (simp add: valueOf_def)
  with decode_code [OF assms(1,2), of rest] show ?thesis by (simp add: decodePart_Nil)
qed

lemma otherCodeLengths_in_dictionary:
  assumes "(c, n) \<in> set otherCodeLengths"
  shows "map_of aiLengths c = Some n \<and> (length c = 2 \<or> length c = 3)"
proof -
  have "list_all (\<lambda>p. map_of aiLengths (fst p) = Some (snd p)
                      \<and> (length (fst p) = 2 \<or> length (fst p) = 3)) otherCodeLengths"
    by (simp add: otherCodeLengths_def aiLengths_def)
  with assms show ?thesis by (fastforce simp: list_all_iff)
qed

text \<open>
  C10: the dictionary of the decoder has 19 codes. Each of 02, 11, 12, 13, 15, 16, 20, 22,
  37, 240, 241, 242, 250 and 251 is recognised at a scan position, whatever follows it,
  and is bracketed and consumed with its dictionary length: a code of positive length
  takes exactly that many characters and the scan goes on after them (or takes what is
  left of the part when it is shorter), a code of length 0 takes the rest of the part.
  So \<open>11250630\<close> decodes to \<open>(11)250630\<close> and \<open>1125063017250630\<close> to
  \<open>(11)250630(17)250630\<close>.
\<close>

theorem decoder_consumes_dictionary_lengths:
  "length aiLengths = 19 \<and> distinct (map fst aiLengths)
   \<and> (\<forall>(c, n) \<in> set otherCodeLengths.
         map_of aiLengths c = Some n
         \<and> (0 < n \<longrightarrow>
              (\<forall>v rest. length v = n
                 \<longrightarrow> decodePart (c @ v @ rest) = ''('' @ c @ '')'' @ v @ decodePart rest)
              \<and> (\<forall>rest. length rest < n
                 \<longrightarrow> decodePart (c @ rest) = ''('' @ c @ '')'' @ rest))
         \<and> (n = 0 \<longrightarrow> (\<forall>rest. decodePart (c @ rest) = ''('' @ c @ '')'' @ rest)))
   \<and> convertRawToParenthesized ''11250630'' = ''(11)250630''
   \<and> convertRawToParenthesized ''1125063017250630'' = ''(11)250630(17)250630''"
proof -
  have a: "length aiLengths = 19 \<and> distinct (map fst aiLengths)"
    by (simp add: aiLengths_def)
  have b: "map_of aiLengths c = Some n
         \<and> (0 < n \<longrightarrow>
              (\<forall>v rest. length v = n
                 \<longrightarrow> decodePart (c @ v @ rest) = ''('' @ c @ '')'' @ v @ decodePart rest)
              \<and> (\<forall>rest. length rest < n
                 \<longrightarrow> decodePart (c @ rest) = ''('' @ c @ '')'' @ rest))
         \<and> (n = 0 \<longrightarrow> (\<forall>rest. decodePart (c @ rest) = ''('' @ c @ '')'' @ rest))"
    if "(c, n) \<in> set otherCodeLengths" for c n
  proof -
    from otherCodeLengths_in_dictionary [OF that]
    have m: "map_of aiLengths c = Some n" and l: "length c = 2 \<or> length c = 3" by simp_all
    show ?thesis
      using m decode_fixed [OF m l] decode_fixed_short [OF m l] decode_variable [OF _ l] by auto
  qed
  have c: "convertRawToParenthesized ''11250630'' = ''(11)250630''"
    "convertRawToParenthesized ''1125063017250630'' = ''(11)250630(17)250630''"
    by code_simp+
  from a b c show ?thesis by blast
qed

theorem decoder_consumes_dictionary_lengths_witness:
  "(''11'', 6) \<in> set otherCodeLengths \<and> (''22'', 0) \<in> set otherCodeLengths
   \<and> length ''250630'' = 6
   \<and> decodePart ''1125063017250630'' = ''(11)250630'' @ decodePart ''17250630''
   \<and> decodePart ''112506'' = ''(11)2506''
   \<and> decodePart ''22AB17250630'' = ''(22)AB17250630''"
proof -
  have m: "(''11'', 6) \<in> set otherCodeLengths" "(''22'', 0) \<in> set otherCodeLengths"
    by (simp_all add: otherCodeLengths_def)
  note w = decoder_consumes_dictionary_lengths [THEN conjunct2, THEN conjunct2, THEN conjunct1]
  from bspec [OF w m(1)] have F: "\<forall>v rest. length v = 6
      \<longrightarrow> decodePart (''11'' @ v @ rest) = ''('' @ ''11'' @ '')'' @ v @ decodePart rest"
    and S: "\<forall>rest. length rest < 6
      \<longrightarrow> decodePart (''11'' @ rest) = ''('' @ ''11'' @ '')'' @ rest"
    by (simp_all del: decodePart.simps)
  from bspec [OF w m(2)] have V: "\<forall>rest. decodePart (''22'' @ rest) = ''('' @ ''22'' @ '')'' @ rest"
    by (simp del: decodePart.simps)
  from F [rule_format, of "''250630''" "''17250630''"]
  have f: "decodePart ''1125063017250630'' = ''(11)250630'' @ decodePart ''17250630''"
    by (simp del: decodePart.simps)
  from S [rule_format, of "''2506''"]
  have s: "decodePart ''112506'' = ''(11)2506''"
    by (simp del: decodePart.simps)
  from V [rule_format, of "''AB17250630''"]
  have v: "decodePart ''22AB17250630'' = ''(22)AB17250630''"
    by (simp del: decodePart.simps)
  from m f s v show ?thesis by (simp del: decodePart.simps)
qed

subsection \<open>The date normaliser\<close>

lemma isDigit_not_isSpace: "isDigit c \<Longrightarrow> \<not> isSpace c"
  by (auto simp: isDigit_def isSpace_def)

lemma parseInt10_digits:
  assumes "s \<noteq> []" "list_all isDigit s"
  shows "parseInt10 s = Some (int (digitsVal s))"
proof -
  from assms obtain c cs where s: "s = c # cs" and c: "isDigit c"
    by (cases s) auto
  from c have n: "c \<noteq> CHR ''-''" "c \<noteq> CHR ''+''" by (auto simp: isDigit_def)
  from s c have d: "dropWhile isSpace s = s" by (simp add: isDigit_not_isSpace)
  from assms have t: "takeWhile isDigit s = s"
    by (simp add: list_all_iff)
  have "startsWith s ''-'' = False" "startsWith s ''+'' = False"
    using s n by (simp_all add: startsWith_def)
  then show ?thesis using assms(1)
    by (simp add: parseInt10_def Let_def d t)
qed

lemma zerothDay_month:
  assumes "2000 \<le> y" "1 \<le> m" "m \<le> 12"
  shows "zerothDay (Some y) (Some m) = Some (daysInMonth y m)"
proof (cases "m = 12")
  case True
  then show ?thesis using assms by (simp add: zerothDay_def Let_def)
next
  case False
  with assms have "m div 12 = 0" "m mod 12 = m" "m \<noteq> 0" by simp_all
  with assms show ?thesis by (simp add: zerothDay_def Let_def)
qed

lemma daysInMonth_range: "28 \<le> daysInMonth y m \<and> daysInMonth y m \<le> 31"
  by (simp add: daysInMonth_def)

text \<open>
  C6: a six-digit date whose day digits are \<open>00\<close> and whose month is 1 to 12 normalises
  to the last calendar day of that month in the year 2000 + YY, which the code obtains as
  the zeroth day of the month after; \<open>250200\<close> gives 2025-02-28.
\<close>

theorem day_zero_is_last_day:
  assumes "length ym = 4" "list_all isDigit ym"
    and "1 \<le> digitsVal (drop 2 ym)" "digitsVal (drop 2 ym) \<le> 12"
  shows "parseGS1Date (ym @ ''00'') =
     (let year = 2000 + int (digitsVal (take 2 ym));
          mm = int (digitsVal (drop 2 ym));
          dd = daysInMonth year mm
      in (jsString (Some year) @ ''-'' @ padStart 2 (CHR ''0'') (jsString (Some mm)) @ ''-''
            @ padStart 2 (CHR ''0'') (jsString (Some dd)),
          padStart 2 (CHR ''0'') (jsString (Some dd)) @ ''/''
            @ padStart 2 (CHR ''0'') (jsString (Some mm)) @ ''/'' @ jsString (Some year)))"
proof -
  let ?y = "2000 + int (digitsVal (take 2 ym))"
  let ?m = "int (digitsVal (drop 2 ym))"
  from assms(1,2) have yy: "parseInt10 (substring 0 2 (ym @ ''00'')) = Some (int (digitsVal (take 2 ym)))"
    using parseInt10_digits [of "take 2 ym"]
    by (cases ym) (auto simp: substring_def list_all_iff dest: in_set_takeD)
  from assms(1,2) have mm: "parseInt10 (substring 2 4 (ym @ ''00'')) = Some ?m"
    using parseInt10_digits [of "drop 2 ym"]
    by (auto simp: substring_def list_all_iff dest: in_set_dropD)
  from assms(1) have dd: "parseInt10 (substring 4 6 (ym @ ''00'')) = Some 0"
    by (simp add: substring_def parseInt10_def isSpace_def isDigit_def startsWith_def digitsVal_def digitVal_def)
  have z: "zerothDay (Some ?y) (Some ?m) = Some (daysInMonth ?y ?m)"
    using assms(3,4) by (intro zerothDay_month) simp_all
  have r: "28 \<le> daysInMonth ?y ?m" "daysInMonth ?y ?m \<le> 31"
    using daysInMonth_range by simp_all
  from assms(1) have len: "length (ym @ ''00'') = 6" "ym @ ''00'' \<noteq> []" by simp_all
  show ?thesis
    unfolding parseGS1Date_def yy mm dd Let_def
    using len z r assms(3,4) by (simp add: numLt_def numGt_def)
qed

theorem day_zero_is_last_day_witness:
  "length ''2502'' = 4 \<and> list_all isDigit ''2502'' \<and> digitsVal (drop 2 ''2502'') = 2
   \<and> parseGS1Date ''250200'' = (''2025-02-28'', ''28/02/2025'')"
proof -
  have h: "length ''2502'' = 4" "list_all isDigit ''2502''"
    "1 \<le> digitsVal (drop 2 ''2502'')" "digitsVal (drop 2 ''2502'') \<le> 12"
    by (simp_all add: isDigit_def digitsVal_def digitVal_def)
  have m: "digitsVal (drop 2 ''2502'') = 2" "digitsVal (take 2 ''2502'') = 25"
    by (simp_all add: digitsVal_def digitVal_def)
  have d: "daysInMonth 2025 2 = 28"
    by (simp add: daysInMonth_def isLeapYear_def)
  have s: "jsString (Some 2025) = ''2025''" "jsString (Some 2) = ''2''" "jsString (Some 28) = ''28''"
    by (simp_all add: jsString_def showNat.simps digitChar_def)
  have "parseGS1Date (''2502'' @ ''00'') = (''2025-02-28'', ''28/02/2025'')"
    unfolding day_zero_is_last_day [OF h] m Let_def
    by (simp add: d s padStart_def)
  with h m show ?thesis by simp
qed

subsection \<open>The extractor: GTIN and validity\<close>

lemma searchFrom_SomeD:
  "searchFrom m s = Some r \<Longrightarrow> \<exists>pre t. s = pre @ t \<and> m t = Some r"
proof (induction s)
  case Nil
  then show ?case by simp
next
  case (Cons c cs)
  show ?case
  proof (cases "m (c # cs)")
    case None
    with Cons.prems have "searchFrom m cs = Some r" by simp
    from Cons.IH [OF this] obtain pre t where "cs = pre @ t" "m t = Some r" by blast
    then have "c # cs = (c # pre) @ t \<and> m t = Some r" by simp
    then show ?thesis by blast
  next
    case (Some a)
    with Cons.prems have "c # cs = [] @ (c # cs) \<and> m (c # cs) = Some r" by simp
    then show ?thesis by blast
  qed
qed

lemma digitsExactly_SomeD:
  "digitsExactly n s = Some d \<Longrightarrow> d = take n s \<and> length d = n \<and> list_all isDigit d"
  by (auto simp: digitsExactly_def split: if_splits)

lemma afterLit_SomeD: "afterLit lit s = Some r \<Longrightarrow> s = lit @ r"
  by (auto simp: afterLit_def startsWith_def split: if_splits)
     (metis append_take_drop_id)

lemma pat01_SomeD:
  "pat01 t = Some g \<Longrightarrow> length g = 14 \<and> list_all isDigit g \<and> (\<exists>rest. t = ''(01)'' @ g @ rest)"
  unfolding pat01_def
  by (auto split: option.splits dest!: afterLit_SomeD digitsExactly_SomeD)
     (metis append_take_drop_id)

lemma pat01short_SomeD:
  "pat01short t = Some g \<Longrightarrow>
     (length g = 12 \<or> length g = 13) \<and> list_all isDigit g \<and> (\<exists>rest. t = ''(01)'' @ g @ rest)"
  unfolding pat01short_def
  by (auto split: option.splits dest!: afterLit_SomeD digitsExactly_SomeD)
     (metis append_take_drop_id)+


lemma gtinFields_cases:
  "gtinFields s = ([], []) \<and> searchFrom pat01 s = None \<and> searchFrom pat01short s = None
   \<or> (\<exists>g. searchFrom pat01 s = Some g \<and> length g = 14 \<and> list_all isDigit g
          \<and> gtinFields s = (g, if hd g = CHR ''0'' then tl g else g))
   \<or> (\<exists>sh. searchFrom pat01 s = None \<and> searchFrom pat01short s = Some sh
          \<and> (length sh = 12 \<or> length sh = 13) \<and> list_all isDigit sh
          \<and> gtinFields s = (CHR ''0'' # padStart 13 (CHR ''0'') sh, padStart 13 (CHR ''0'') sh))"
proof (cases "searchFrom pat01 s")
  case (Some g)
  then obtain t where "pat01 t = Some g" using searchFrom_SomeD by fastforce
  then have g: "length g = 14" "list_all isDigit g" using pat01_SomeD by blast+
  then have "startsWith g ''0'' = (hd g = CHR ''0'')" "drop 1 g = tl g"
    by (cases g; simp add: startsWith_def)+
  with Some g show ?thesis by (simp add: gtinFields_def)
next
  case None
  show ?thesis
  proof (cases "searchFrom pat01short s")
    case N2: None
    with None show ?thesis by (simp add: gtinFields_def)
  next
    case (Some sh)
    then obtain t where "pat01short t = Some sh" using searchFrom_SomeD by fastforce
    then have g: "length sh = 12 \<or> length sh = 13" "list_all isDigit sh"
      using pat01short_SomeD by blast+
    then have "length (padStart 13 (CHR ''0'') sh) = 13" by (auto simp: padStart_def)
    then have "padStart 14 (CHR ''0'') (padStart 13 (CHR ''0'') sh) = CHR ''0'' # padStart 13 (CHR ''0'') sh"
      by (simp add: padStart_def)
    with None Some g show ?thesis by (simp add: gtinFields_def)
  qed
qed

lemma list_all_padStart:
  "list_all isDigit s \<Longrightarrow> list_all isDigit (padStart n (CHR ''0'') s)"
proof -
  have "isDigit (CHR ''0'')" by (simp add: isDigit_def)
  then show "list_all isDigit s \<Longrightarrow> list_all isDigit (padStart n (CHR ''0'') s)"
    by (auto simp: padStart_def list_all_iff)
qed

text \<open>
  C5: every valid scan that the extractor returns has a \<open>gtin14\<close> of exactly 14 characters
  (all digits), and its \<open>gtin13\<close> is \<open>gtin14\<close> without its first character when that
  character is \<open>0\<close>, and \<open>gtin14\<close> itself otherwise.
\<close>

theorem gtin_invariant:
  assumes "parseGs1 e inp = Result r" "valid r"
  shows "length (gtin14 r) = 14 \<and> list_all isDigit (gtin14 r)
       \<and> gtin13 r = (if hd (gtin14 r) = CHR ''0'' then tl (gtin14 r) else gtin14 r)"
proof -
  from assms(1) obtain rawStr where inp: "inp = JsString rawStr" "rawStr \<noteq> []"
    by (cases inp) (auto simp: parseGs1_def split: if_splits)
  with assms(1) have
    r: "gtin14 r = fst (gtinFields (cleanInput rawStr))"
       "gtin13 r = snd (gtinFields (cleanInput rawStr))"
       "valid r = (\<not> (fst (gtinFields (cleanInput rawStr)) = [] \<and> snd (gtinFields (cleanInput rawStr)) = []))"
    by (auto simp: parseGs1_def Let_def)
  let ?s = "cleanInput rawStr"
  from assms(2) r(3) have ne: "gtinFields ?s \<noteq> ([], [])" by auto
  from gtinFields_cases [of ?s] ne consider
    (long) g where "length g = 14" "list_all isDigit g"
       "gtinFields ?s = (g, if hd g = CHR ''0'' then tl g else g)"
  | (short) sh where "length sh = 12 \<or> length sh = 13" "list_all isDigit sh"
       "gtinFields ?s = (CHR ''0'' # padStart 13 (CHR ''0'') sh, padStart 13 (CHR ''0'') sh)"
    by blast
  then show ?thesis
  proof cases
    case long
    with r show ?thesis by simp
  next
    case short
    from short(1) have "length (padStart 13 (CHR ''0'') sh) = 13" by (auto simp: padStart_def)
    moreover from short(2) have "list_all isDigit (padStart 13 (CHR ''0'') sh)"
      by (rule list_all_padStart)
    ultimately show ?thesis using r short(3) by (simp add: isDigit_def)
  qed
qed



theorem gtin_invariant_witness:
  "parseGs1 sampleEnv (JsString ''(01)06297000001234'') =
     Result \<lparr>valid = True, raw = ''(01)06297000001234'',
       gtin14 = ''06297000001234'', gtin13 = ''6297000001234'',
       expiry = [], expiryFormatted = [], expiryStatus = ''missing'', batch = [], serial = [],
       qty = ''1'', productName = [], matchType = ''NONE'', error = None\<rparr>
   \<and> length ''06297000001234'' = 14
   \<and> ''6297000001234'' = tl ''06297000001234''"
proof -
  have p: "parseGs1 sampleEnv (JsString ''(01)06297000001234'') =
     Result \<lparr>valid = True, raw = ''(01)06297000001234'',
       gtin14 = ''06297000001234'', gtin13 = ''6297000001234'',
       expiry = [], expiryFormatted = [], expiryStatus = ''missing'', batch = [], serial = [],
       qty = ''1'', productName = [], matchType = ''NONE'', error = None\<rparr>"
    by code_simp
  from gtin_invariant [OF p] p show ?thesis by simp
qed

text \<open>
  The empty string returns the object \<open>{valid: false, error: ...}\<close>, which has no
  \<open>matchType\<close> field, so it does not carry the match type \<open>INVALID\<close>.
\<close>

theorem empty_input_counterexample:
  "parseGs1 sampleEnv (JsString []) = EarlyInvalid ''Empty or invalid input''
   \<and> parsedMatchType (parseGs1 sampleEnv (JsString [])) \<noteq> Some ''INVALID''"
  by (simp add: parseGs1_def)

text \<open>
  C9, as the code has it: an input that is not a string, or is the empty string, returns
  the object \<open>{valid: false, error: 'Empty or invalid input'}\<close>, which has no match type
  of its own; an input in which neither GTIN pattern matches returns a full record that is
  invalid and carries the match type \<open>INVALID\<close> and the error \<open>No valid GTIN found\<close>. Every
  invalid result carries an error message, and the matcher answers \<open>INVALID\<close> with an empty
  name for it, whatever the index. Nothing is thrown: every input has a result.
\<close>

theorem invalid_input_result:
  "parseGs1 e NotAString = EarlyInvalid ''Empty or invalid input''
   \<and> parseGs1 e (JsString []) = EarlyInvalid ''Empty or invalid input''
   \<and> parsedMatchType (EarlyInvalid ''Empty or invalid input'') = None
   \<and> (rawStr \<noteq> [] \<and> searchFrom pat01 (cleanInput rawStr) = None
        \<and> searchFrom pat01short (cleanInput rawStr) = None
      \<longrightarrow> (\<exists>r. parseGs1 e (JsString rawStr) = Result r \<and> \<not> valid r
             \<and> matchType r = ''INVALID'' \<and> error r = Some ''No valid GTIN found''))
   \<and> (\<not> parsedValid (parseGs1 e inp)
      \<longrightarrow> parsedError (parseGs1 e inp) \<noteq> None
          \<and> matchProduct (parseGs1 e inp) idx = ([], ''INVALID''))"
proof -
  have a: "parseGs1 e NotAString = EarlyInvalid ''Empty or invalid input''"
    "parseGs1 e (JsString []) = EarlyInvalid ''Empty or invalid input''"
    by (simp_all add: parseGs1_def)
  have b: "\<exists>r. parseGs1 e (JsString rawStr) = Result r \<and> \<not> valid r
             \<and> matchType r = ''INVALID'' \<and> error r = Some ''No valid GTIN found''"
    if "rawStr \<noteq> []" "searchFrom pat01 (cleanInput rawStr) = None"
       "searchFrom pat01short (cleanInput rawStr) = None"
  proof -
    from that(2,3) have "gtinFields (cleanInput rawStr) = ([], [])"
      by (simp add: gtinFields_def)
    with that(1) show ?thesis by (simp add: parseGs1_def Let_def)
  qed
  have c: "parsedError (parseGs1 e inp) \<noteq> None
          \<and> matchProduct (parseGs1 e inp) idx = ([], ''INVALID'')"
    if "\<not> parsedValid (parseGs1 e inp)"
  proof (cases "parseGs1 e inp")
    case (EarlyInvalid x)
    then show ?thesis by (simp add: matchProduct_def)
  next
    case (Result r)
    with that have nv: "\<not> valid r" by simp
    from Result obtain rawStr where "inp = JsString rawStr" "rawStr \<noteq> []"
      by (cases inp) (auto simp: parseGs1_def split: if_splits)
    with Result nv have "error r \<noteq> None"
      by (auto simp: parseGs1_def Let_def)
    with Result nv show ?thesis by (simp add: matchProduct_def)
  qed
  from a b c show ?thesis by simp
qed

theorem invalid_input_result_witness:
  "parseGs1 sampleEnv (JsString ''(01)12345678901'') =
     Result \<lparr>valid = False, raw = ''(01)12345678901'', gtin14 = [], gtin13 = [],
       expiry = [], expiryFormatted = [], expiryStatus = ''missing'', batch = [], serial = [],
       qty = ''1'', productName = [], matchType = ''INVALID'',
       error = Some ''No valid GTIN found''\<rparr>
   \<and> matchProduct (parseGs1 sampleEnv (JsString ''(01)12345678901'')) None = ([], ''INVALID'')
   \<and> matchProduct (parseGs1 sampleEnv NotAString) None = ([], ''INVALID'')"
proof -
  have p: "parseGs1 sampleEnv (JsString ''(01)12345678901'') =
     Result \<lparr>valid = False, raw = ''(01)12345678901'', gtin14 = [], gtin13 = [],
       expiry = [], expiryFormatted = [], expiryStatus = ''missing'', batch = [], serial = [],
       qty = ''1'', productName = [], matchType = ''INVALID'',
       error = Some ''No valid GTIN found''\<rparr>"
    by code_simp
  have q: "parseGs1 sampleEnv NotAString = EarlyInvalid ''Empty or invalid input''"
    by (simp add: parseGs1_def)
  from invalid_input_result [of sampleEnv "''(01)12345678901''" "JsString ''(01)12345678901''" None] p
  have 1: "matchProduct (parseGs1 sampleEnv (JsString ''(01)12345678901'')) None = ([], ''INVALID'')"
    by simp
  from invalid_input_result [of sampleEnv "[]" NotAString None] q
  have 2: "matchProduct (parseGs1 sampleEnv NotAString) None = ([], ''INVALID'')"
    by simp
  from p 1 2 show ?thesis by simp
qed

subsection \<open>The extractor: where the GTIN is found\<close>

lemma afterLit_self: "afterLit lit (lit @ r) = Some r"
  by (simp add: afterLit_def startsWith_def)

lemma isDigit_not_bracket: "isDigit c \<Longrightarrow> c \<noteq> CHR ''(''"
  by (auto simp: isDigit_def)

lemma digitsExactly_prefix:
  "length ds = n \<Longrightarrow> list_all isDigit ds \<Longrightarrow> digitsExactly n (ds @ rest) = Some ds"
  by (simp add: digitsExactly_def)

lemma digitsExactly_short:
  assumes "length ds < n" "list_all isDigit ds" "rest = [] \<or> \<not> isDigit (hd rest)"
  shows "digitsExactly n (ds @ rest) = None"
proof (cases rest)
  case Nil
  with assms show ?thesis by (simp add: digitsExactly_def)
next
  case (Cons x xs)
  with assms have x: "\<not> isDigit x" by simp
  from assms(1) have "take n (ds @ rest) = ds @ take (n - length ds) rest" by simp
  moreover from assms(1) Cons have "take (n - length ds) rest = x # take (n - length ds - 1) xs"
    by (cases "n - length ds") simp_all
  ultimately show ?thesis using x by (simp add: digitsExactly_def)
qed

lemma pat01_at_code:
  "length ds = 14 \<Longrightarrow> list_all isDigit ds \<Longrightarrow> pat01 (''(01)'' @ ds @ rest) = Some ds"
  unfolding pat01_def afterLit_self by (simp add: digitsExactly_prefix)

lemma searchFrom_None_iff:
  "searchFrom m s = None \<longleftrightarrow> (\<forall>i \<le> length s. m (drop i s) = None)"
proof (induction s)
  case Nil
  then show ?case by simp
next
  case (Cons c cs)
  have "(\<forall>i \<le> length (c # cs). m (drop i (c # cs)) = None)
      \<longleftrightarrow> m (c # cs) = None \<and> (\<forall>i \<le> length cs. m (drop i cs) = None)"
  proof
    assume a: "\<forall>i \<le> length (c # cs). m (drop i (c # cs)) = None"
    then have "m (drop 0 (c # cs)) = None" by blast
    moreover have "m (drop i cs) = None" if "i \<le> length cs" for i
      using a [rule_format, of "Suc i"] that by simp
    ultimately show "m (c # cs) = None \<and> (\<forall>i \<le> length cs. m (drop i cs) = None)" by simp
  next
    assume a: "m (c # cs) = None \<and> (\<forall>i \<le> length cs. m (drop i cs) = None)"
    show "\<forall>i \<le> length (c # cs). m (drop i (c # cs)) = None"
    proof (intro allI impI)
      fix i assume "i \<le> length (c # cs)"
      with a show "m (drop i (c # cs)) = None" by (cases i) simp_all
    qed
  qed
  with Cons.IH show ?case by (simp split: option.splits)
qed

lemma searchFrom_leftmost:
  assumes "m (drop p s) = Some r" "p \<le> length s" "\<forall>i < p. m (drop i s) = None"
  shows "searchFrom m s = Some r"
  using assms
proof (induction s arbitrary: p)
  case Nil
  then show ?case by simp
next
  case (Cons c cs)
  show ?case
  proof (cases p)
    case 0
    with Cons.prems(1) show ?thesis by simp
  next
    case (Suc q)
    with Cons.prems(3) have "m (drop 0 (c # cs)) = None" by blast
    then have h: "m (c # cs) = None" by simp
    from Suc Cons.prems(1,2) have 1: "m (drop q cs) = Some r" "q \<le> length cs" by simp_all
    have 2: "\<forall>i < q. m (drop i cs) = None"
    proof (intro allI impI)
      fix i assume "i < q"
      with Suc Cons.prems(3) [rule_format, of "Suc i"] show "m (drop i cs) = None" by simp
    qed
    from Cons.IH [OF 1 2] h show ?thesis by simp
  qed
qed

lemma pat01_None_iff: "pat01 t = None \<longleftrightarrow> \<not> startsGtin 14 t"
proof
  assume n: "pat01 t = None"
  show "\<not> startsGtin 14 t"
  proof
    assume "startsGtin 14 t"
    then obtain d r where "t = ''(01)'' @ d @ r" "length d = 14" "list_all isDigit d"
      unfolding startsGtin_def by blast
    with pat01_at_code [of d r] n show False by simp
  qed
next
  assume n: "\<not> startsGtin 14 t"
  show "pat01 t = None"
  proof (cases "pat01 t")
    case None
    then show ?thesis .
  next
    case (Some g)
    from pat01_SomeD [OF this] have "startsGtin 14 t" unfolding startsGtin_def by blast
    with n show ?thesis by simp
  qed
qed

lemma pat01short_None_iff: "pat01short t = None \<longleftrightarrow> \<not> startsGtin 12 t"
proof
  assume n: "pat01short t = None"
  show "\<not> startsGtin 12 t"
  proof
    assume "startsGtin 12 t"
    then obtain d r where t: "t = ''(01)'' @ d @ r" and d: "length d = 12" "list_all isDigit d"
      unfolding startsGtin_def by blast
    from d have "digitsExactly 12 (d @ r) = Some d" by (rule digitsExactly_prefix)
    moreover have "afterLit ''(01)'' (''(01)'' @ d @ r) = Some (d @ r)" by (rule afterLit_self)
    ultimately have "pat01short t \<noteq> None"
      unfolding pat01short_def t by (simp del: append.simps split: option.splits)
    with n show False by simp
  qed
next
  assume n: "\<not> startsGtin 12 t"
  show "pat01short t = None"
  proof (cases "pat01short t")
    case None
    then show ?thesis .
  next
    case (Some g)
    from pat01short_SomeD [OF this] obtain rest where
      g: "length g = 12 \<or> length g = 13" "list_all isDigit g" "t = ''(01)'' @ g @ rest"
      by blast
    then have "t = ''(01)'' @ take 12 g @ (drop 12 g @ rest) \<and> length (take 12 g) = 12
        \<and> list_all isDigit (take 12 g)"
      by (auto simp: list_all_iff dest: in_set_takeD)
    then have "startsGtin 12 t" unfolding startsGtin_def by blast
    with n show ?thesis by simp
  qed
qed

lemma pat01short_at_code:
  assumes "length ds = 13 \<or> length ds = 12 \<and> (rest = [] \<or> \<not> isDigit (hd rest))"
    and "list_all isDigit ds"
  shows "pat01short (''(01)'' @ ds @ rest) = Some ds"
proof (cases "length ds = 13")
  case True
  with assms(2) show ?thesis
    unfolding pat01short_def afterLit_self by (simp add: digitsExactly_prefix)
next
  case False
  with assms(1) have l: "length ds = 12" and r: "rest = [] \<or> \<not> isDigit (hd rest)" by simp_all
  from l have "digitsExactly 13 (ds @ rest) = None"
    using digitsExactly_short [of ds 13 rest] assms(2) r by simp
  with l assms(2) show ?thesis
    unfolding pat01short_def afterLit_self by (simp add: digitsExactly_prefix)
qed

text \<open>
  A run of fifteen digits after \<open>(01)\<close>: the fourteen-digit pattern applies all the same
  and takes the first fourteen digits.
\<close>

theorem long_run_counterexample:
  "parseGs1 sampleEnv (JsString ''(01)123456789012345'') =
     Result \<lparr>valid = True, raw = ''(01)123456789012345'',
       gtin14 = ''12345678901234'', gtin13 = ''12345678901234'',
       expiry = [], expiryFormatted = [], expiryStatus = ''missing'', batch = [], serial = [],
       qty = ''1'', productName = [], matchType = ''NONE'', error = None\<rparr>"
  by code_simp

text \<open>
  C4, as the code has it: the extractor takes as GTIN the fourteen digits that follow the
  leftmost \<open>(01)\<close> followed by at least fourteen digits, wherever in the string it is;
  nothing is asked of what comes after them, so a longer run of digits is cut to its first
  fourteen. When no \<open>(01)\<close> in the string is followed by fourteen digits, the leftmost
  \<open>(01)\<close> followed by at least twelve digits gives its run of twelve or thirteen digits,
  padded with zeros on the left to thirteen and then fourteen digits. When no \<open>(01)\<close> is
  followed by twelve digits there is no GTIN.
\<close>

theorem gtin_leftmost:
  "(drop p s = ''(01)'' @ ds @ rest \<and> length ds = 14 \<and> list_all isDigit ds
      \<and> (\<forall>i < p. \<not> startsGtin 14 (drop i s))
      \<longrightarrow> gtinFields s = (ds, if hd ds = CHR ''0'' then tl ds else ds))
   \<and> ((\<forall>i \<le> length s. \<not> startsGtin 14 (drop i s))
        \<and> drop p s = ''(01)'' @ ds @ rest \<and> list_all isDigit ds
        \<and> (length ds = 13 \<or> length ds = 12 \<and> (rest = [] \<or> \<not> isDigit (hd rest)))
        \<and> (\<forall>i < p. \<not> startsGtin 12 (drop i s))
      \<longrightarrow> gtinFields s = (CHR ''0'' # padStart 13 (CHR ''0'') ds, padStart 13 (CHR ''0'') ds))
   \<and> ((\<forall>i \<le> length s. \<not> startsGtin 12 (drop i s)) \<longrightarrow> gtinFields s = ([], []))"
proof -
  have pos: "p \<le> length s" if "drop p s = ''(01)'' @ ds @ rest" for ds rest
  proof (rule ccontr)
    assume "\<not> p \<le> length s"
    then have "drop p s = []" by simp
    with that show False by simp
  qed
  have a: "gtinFields s = (ds, if hd ds = CHR ''0'' then tl ds else ds)"
    if d: "drop p s = ''(01)'' @ ds @ rest" and l: "length ds = 14" "list_all isDigit ds"
      and left: "\<forall>i < p. \<not> startsGtin 14 (drop i s)"
  proof -
    from d pat01_at_code [OF l] have "pat01 (drop p s) = Some ds" by simp
    moreover from left have "\<forall>i < p. pat01 (drop i s) = None" by (simp add: pat01_None_iff)
    ultimately have "searchFrom pat01 s = Some ds"
      using pos [OF d] by (intro searchFrom_leftmost) simp_all
    with gtinFields_cases [of s] show ?thesis by auto
  qed
  have b: "gtinFields s = (CHR ''0'' # padStart 13 (CHR ''0'') ds, padStart 13 (CHR ''0'') ds)"
    if none: "\<forall>i \<le> length s. \<not> startsGtin 14 (drop i s)"
      and d: "drop p s = ''(01)'' @ ds @ rest" and dig: "list_all isDigit ds"
      and l: "length ds = 13 \<or> length ds = 12 \<and> (rest = [] \<or> \<not> isDigit (hd rest))"
      and left: "\<forall>i < p. \<not> startsGtin 12 (drop i s)"
  proof -
    from none have 1: "searchFrom pat01 s = None"
      by (simp add: searchFrom_None_iff pat01_None_iff)
    from d pat01short_at_code [OF l dig] have "pat01short (drop p s) = Some ds" by simp
    moreover from left have "\<forall>i < p. pat01short (drop i s) = None"
      by (simp add: pat01short_None_iff)
    ultimately have 2: "searchFrom pat01short s = Some ds"
      using pos [OF d] by (intro searchFrom_leftmost) simp_all
    from 1 2 gtinFields_cases [of s] show ?thesis by auto
  qed
  have c: "gtinFields s = ([], [])" if none: "\<forall>i \<le> length s. \<not> startsGtin 12 (drop i s)"
  proof -
    from none have 2: "searchFrom pat01short s = None"
      by (simp add: searchFrom_None_iff pat01short_None_iff)
    have "\<not> startsGtin 14 t" if "\<not> startsGtin 12 t" for t
    proof
      assume "startsGtin 14 t"
      then obtain d r where "t = ''(01)'' @ d @ r" "length d = 14" "list_all isDigit d"
        unfolding startsGtin_def by blast
      then have "t = ''(01)'' @ take 12 d @ (drop 12 d @ r) \<and> length (take 12 d) = 12
          \<and> list_all isDigit (take 12 d)"
        by (auto simp: list_all_iff dest: in_set_takeD)
      then have "startsGtin 12 t" unfolding startsGtin_def by blast
      with that show False by simp
    qed
    with none have "\<forall>i \<le> length s. \<not> startsGtin 14 (drop i s)" by blast
    then have 1: "searchFrom pat01 s = None"
      by (simp add: searchFrom_None_iff pat01_None_iff)
    from 1 2 show ?thesis by (simp add: gtinFields_def)
  qed
  from a b c show ?thesis by blast
qed


lemma all_less_upt: "(\<forall>i < p. P i) \<longleftrightarrow> list_all P [0 ..< p]"
  by (auto simp: list_all_iff)

theorem gtin_leftmost_witness:
  "gtinFields ''(17)250630(01)123456789012345'' = (''12345678901234'', ''12345678901234'')
   \<and> gtinFields ''(17)250630(01)123456789012(10)AB'' = (''00123456789012'', ''0123456789012'')
   \<and> gtinFields ''(17)250630(01)12345678901'' = ([], [])"
proof -
  let ?s1 = "''(17)250630(01)123456789012345''"
  let ?s2 = "''(17)250630(01)123456789012(10)AB''"
  let ?s3 = "''(17)250630(01)12345678901''"
  have d: "list_all isDigit ''12345678901234''" "list_all isDigit ''123456789012''"
    "\<not> isDigit (hd ''(10)AB'')"
    by (simp_all add: isDigit_def)
  have "list_all (\<lambda>i. pat01 (drop i ?s1) = None) [0 ..< 10]" by code_simp
  then have l1: "\<forall>i < 10. \<not> startsGtin 14 (drop i ?s1)"
    by (simp only: all_less_upt pat01_None_iff)
  have "searchFrom pat01 ?s2 = None" by code_simp
  then have n2: "\<forall>i \<le> length ?s2. \<not> startsGtin 14 (drop i ?s2)"
    by (simp only: searchFrom_None_iff pat01_None_iff)
  have "list_all (\<lambda>i. pat01short (drop i ?s2) = None) [0 ..< 10]" by code_simp
  then have l2: "\<forall>i < 10. \<not> startsGtin 12 (drop i ?s2)"
    by (simp only: all_less_upt pat01short_None_iff)
  have "searchFrom pat01short ?s3 = None" by code_simp
  then have n3: "\<forall>i \<le> length ?s3. \<not> startsGtin 12 (drop i ?s3)"
    by (simp only: searchFrom_None_iff pat01short_None_iff)
  have p1: "drop 10 ?s1 = ''(01)'' @ ''12345678901234'' @ ''5''"
    and p2: "drop 10 ?s2 = ''(01)'' @ ''123456789012'' @ ''(10)AB''"
    by simp_all
  from gtin_leftmost [of 10 ?s1 "''12345678901234''" "''5''"] p1 d(1) l1
  have 1: "gtinFields ?s1 = (''12345678901234'', ''12345678901234'')"
    by simp
  from gtin_leftmost [of 10 ?s2 "''123456789012''" "''(10)AB''"] p2 d(2,3) n2 l2
  have 2: "gtinFields ?s2 = (''00123456789012'', ''0123456789012'')"
    by (simp add: padStart_def)
  from gtin_leftmost [of 0 ?s3 "[]" "[]"] n3
  have 3: "gtinFields ?s3 = ([], [])"
    by blast
  from 1 2 3 show ?thesis by simp
qed

subsection \<open>Malformed dates\<close>







subsection \<open>The matcher\<close>

lemma mapSet_not_empty: "mapSet k v m \<noteq> []"
  by (cases m) (auto split: if_splits)

lemma map_of_mapSet: "map_of (mapSet k v m) k' = (if k' = k then Some v else map_of m k')"
  by (induction m) auto

lemma exact_addItem: "exact (addItem idx it) \<noteq> []"
  by (simp add: addItem_def Let_def mapSet_not_empty)

lemma buildMasterIndex_snoc: "buildMasterIndex (xs @ [x]) = addItem (buildMasterIndex xs) x"
  by (simp add: buildMasterIndex_def)

lemma buildMasterIndex_exact_empty: "exact (buildMasterIndex data) = [] \<longleftrightarrow> data = []"
proof (cases data rule: rev_cases)
  case Nil
  then show ?thesis by (simp add: buildMasterIndex_def)
next
  case (snoc xs x)
  then show ?thesis by (simp add: buildMasterIndex_snoc exact_addItem)
qed

lemma buildMasterIndex_buckets:
  "map_of (last8 (buildMasterIndex data)) k = Some b \<Longrightarrow> b \<noteq> [] \<and> data \<noteq> []"
proof (induction data arbitrary: k b rule: rev_induct)
  case Nil
  then show ?case by (simp add: buildMasterIndex_def)
next
  case (snoc x xs)
  then show ?case
    by (auto simp: buildMasterIndex_snoc addItem_def Let_def map_of_mapSet split: if_splits)
qed

lemma seq6Tier_empty: "seq6Tier g [] = ([], ''NONE'')"
proof -
  have "foldl (\<lambda>acc seq6. foldl (seq6Collect seq6) acc []) a ws = a" for a ws
    by (induction ws) simp_all
  then show ?thesis by (simp add: seq6Tier_def seq6MatchesOf_def)
qed

text \<open>
  C3: for a valid scan whose 14- and 13-digit GTINs are not keys of the exact map of a built
  index, the bucket of the last eight digits of the 14-digit GTIN decides: a bucket of one
  entry gives \<open>LAST8\<close> with the name of that entry; a bucket that holds two different
  entries gives \<open>AMBIGUOUS-LAST8\<close> with an empty name, and the last tier is not tried; with
  no bucket the answer is that of the last tier. A bucket of a built index is never empty.
\<close>

theorem last8_tier:
  assumes v: "valid r"
    and m14: "map_of (exact (buildMasterIndex data)) (gtin14 r) = None"
    and m13: "map_of (exact (buildMasterIndex data)) (gtin13 r) = None"
  shows "(map_of (last8 (buildMasterIndex data)) (sliceLast 8 (gtin14 r)) = Some [m]
            \<longrightarrow> matchProduct (Result r) (Some (buildMasterIndex data)) = (snd m, ''LAST8''))
       \<and> (map_of (last8 (buildMasterIndex data)) (sliceLast 8 (gtin14 r)) = Some b
            \<and> m1 \<in> set b \<and> m2 \<in> set b \<and> m1 \<noteq> m2
            \<longrightarrow> matchProduct (Result r) (Some (buildMasterIndex data)) = ([], ''AMBIGUOUS-LAST8''))
       \<and> (map_of (last8 (buildMasterIndex data)) (sliceLast 8 (gtin14 r)) = None
            \<longrightarrow> matchProduct (Result r) (Some (buildMasterIndex data))
                  = seq6Tier (gtin14 r) (exact (buildMasterIndex data)))
       \<and> map_of (last8 (buildMasterIndex data)) (sliceLast 8 (gtin14 r)) \<noteq> Some []"
proof -
  let ?ix = "buildMasterIndex data"
  let ?k = "sliceLast 8 (gtin14 r)"
  have one: "matchProduct (Result r) (Some ?ix) = (snd m, ''LAST8'')"
    if "map_of (last8 ?ix) ?k = Some [m]"
  proof -
    from that have "exact ?ix \<noteq> []"
      using buildMasterIndex_buckets buildMasterIndex_exact_empty by blast
    with v m14 m13 that show ?thesis by (simp add: matchProduct_def)
  qed
  have many: "matchProduct (Result r) (Some ?ix) = ([], ''AMBIGUOUS-LAST8'')"
    if "map_of (last8 ?ix) ?k = Some b" "m1 \<in> set b" "m2 \<in> set b" "m1 \<noteq> m2"
  proof -
    from that(1) have ne: "exact ?ix \<noteq> []"
      using buildMasterIndex_buckets buildMasterIndex_exact_empty by blast
    from that(2,3,4) obtain x y ys where "b = x # y # ys"
      by (cases b; cases "tl b") auto
    with v m14 m13 that(1) ne show ?thesis by (simp add: matchProduct_def)
  qed
  have none: "matchProduct (Result r) (Some ?ix) = seq6Tier (gtin14 r) (exact ?ix)"
    if "map_of (last8 ?ix) ?k = None"
    using v m14 m13 that by (simp add: matchProduct_def seq6Tier_empty)
  have nonempty: "map_of (last8 ?ix) ?k \<noteq> Some []"
    using buildMasterIndex_buckets by blast
  from one many none nonempty show ?thesis by blast
qed


lemma scanOf_parsed:
  "parseGs1 sampleEnv (JsString ''(01)06500000001234'') = Result (scanOf ''06500000001234'')"
  "parseGs1 sampleEnv (JsString ''(01)00009700000199'') = Result (scanOf ''00009700000199'')"
  by code_simp+

theorem last8_tier_witness:
  "matchProduct (Result (scanOf ''06500000001234'')) (Some (buildMasterIndex catalogTwo))
     = ([], ''AMBIGUOUS-LAST8'')
   \<and> matchProduct (Result (scanOf ''06500000001234'')) (Some (buildMasterIndex catalogOne))
     = (''Panadol'', ''LAST8'')
   \<and> matchProduct (Result (scanOf ''00009700000199'')) (Some (buildMasterIndex catalogOne))
     = seq6Tier ''00009700000199'' (exact (buildMasterIndex catalogOne))"
proof -
  have i2: "buildMasterIndex catalogTwo =
    \<lparr>exact = [(''06297000001234'', ''Panadol''), (''6297000001234'', ''Panadol''),
               (''06111100001234'', ''Brufen''), (''6111100001234'', ''Brufen'')],
      last8 = [(''00001234'',
                [(''06297000001234'', ''Panadol''), (''06111100001234'', ''Brufen'')])]\<rparr>"
    by code_simp
  have i1: "buildMasterIndex catalogOne =
    \<lparr>exact = [(''06297000001234'', ''Panadol''), (''6297000001234'', ''Panadol'')],
      last8 = [(''00001234'', [(''06297000001234'', ''Panadol'')])]\<rparr>"
    by code_simp
  have s: "valid (scanOf g)" "gtin14 (scanOf g) = g" for g
    by (simp_all add: scanOf_def)
  have g13: "gtin13 (scanOf ''06500000001234'') = ''6500000001234''"
    "gtin13 (scanOf ''00009700000199'') = ''0009700000199''"
    by (simp_all add: scanOf_def startsWith_def)
  have k: "sliceLast 8 ''06500000001234'' = ''00001234''"
    "sliceLast 8 ''00009700000199'' = ''00000199''"
    by (simp_all add: sliceLast_def)
  from last8_tier [of "scanOf ''06500000001234''" catalogTwo
      "(''06297000001234'', ''Panadol'')"
      "[(''06297000001234'', ''Panadol''), (''06111100001234'', ''Brufen'')]"
      "(''06297000001234'', ''Panadol'')" "(''06111100001234'', ''Brufen'')"]
  have 1: "matchProduct (Result (scanOf ''06500000001234'')) (Some (buildMasterIndex catalogTwo))
     = ([], ''AMBIGUOUS-LAST8'')"
    unfolding i2 by (simp add: s g13 k)
  from last8_tier [of "scanOf ''06500000001234''" catalogOne
      "(''06297000001234'', ''Panadol'')"]
  have 2: "matchProduct (Result (scanOf ''06500000001234'')) (Some (buildMasterIndex catalogOne))
     = (''Panadol'', ''LAST8'')"
    unfolding i1 by (simp add: s g13 k)
  from last8_tier [of "scanOf ''00009700000199''" catalogOne]
  have 3: "matchProduct (Result (scanOf ''00009700000199'')) (Some (buildMasterIndex catalogOne))
     = seq6Tier ''00009700000199'' (exact (buildMasterIndex catalogOne))"
    unfolding i1 by (simp add: s g13 k)
  from 1 2 3 show ?thesis by simp
qed

lemma seq6Collect_keys:
  "fst ` set (foldl (seq6Collect w) acc ex)
     = fst ` set acc \<union> {k \<in> fst ` set ex. str_includes k w}"
proof (induction ex arbitrary: acc)
  case Nil
  then show ?case by simp
next
  case (Cons e ex)
  have "fst ` set (seq6Collect w acc e)
          = fst ` set acc \<union> (if str_includes (fst e) w then {fst e} else {})"
  proof (cases "str_includes (fst e) w \<and> \<not> list_ex (\<lambda>m. fst m = fst e) acc")
    case True
    then show ?thesis by (simp add: seq6Collect_def)
  next
    case False
    then have "str_includes (fst e) w \<Longrightarrow> fst e \<in> fst ` set acc"
      by (auto simp: list_ex_iff intro: rev_image_eqI)
    with False show ?thesis by (auto simp: seq6Collect_def)
  qed
  then show ?case by (auto simp: Cons.IH)
qed

lemma seq6Collect_distinct:
  "distinct (map fst acc) \<Longrightarrow> distinct (map fst (foldl (seq6Collect w) acc ex))"
proof (induction ex arbitrary: acc)
  case Nil
  then show ?case by simp
next
  case (Cons e ex)
  from Cons.prems have "distinct (map fst (seq6Collect w acc e))"
    by (auto simp: seq6Collect_def list_ex_iff)
  then show ?case by (simp add: Cons.IH)
qed

lemma seq6_fold_keys:
  "fst ` set (foldl (\<lambda>acc seq6. foldl (seq6Collect seq6) acc ex) acc ws)
     = fst ` set acc \<union> {k \<in> fst ` set ex. \<exists>w \<in> set ws. str_includes k w}"
  by (induction ws arbitrary: acc) (auto simp: seq6Collect_keys)

lemma seq6_fold_distinct:
  "distinct (map fst acc) \<Longrightarrow>
   distinct (map fst (foldl (\<lambda>acc seq6. foldl (seq6Collect seq6) acc ex) acc ws))"
  by (induction ws arbitrary: acc) (simp_all add: seq6Collect_distinct)

lemma seq6MatchesOf_count: "length (seq6MatchesOf g ex) = card (windowKeys g ex)"
proof -
  have d: "distinct (map fst (seq6MatchesOf g ex))"
    unfolding seq6MatchesOf_def by (rule seq6_fold_distinct) simp
  have "set (map fst (seq6MatchesOf g ex)) = windowKeys g ex"
    unfolding seq6MatchesOf_def windowKeys_def using seq6_fold_keys [of ex "[]"] by simp
  with distinct_card [OF d] show ?thesis by simp
qed

lemma seq6Windows_five: "length g = 14 \<Longrightarrow> length (seq6Windows (sliceLast 10 g)) = 5"
  by (simp add: seq6Windows_def sliceLast_def)

text \<open>
  C2: what the last tier counts. It counts the keys of the exact map that contain one of
  the windows: none gives \<open>NONE\<close>, one gives \<open>SEQ6\<close>, more than one gives
  \<open>AMBIGUOUS-SEQ6\<close>. The exact map holds a product whose 14-digit GTIN starts with 0 under
  two keys, the 14-digit one and the 13-digit one, so a catalog of the single product
  6297000001234 answers \<open>AMBIGUOUS-SEQ6\<close> to the scan 00009700000199, whose window 970000
  is in both keys.
\<close>

theorem seq6_counts_map_keys:
  "snd (seq6Tier g ex) =
     (if card (windowKeys g ex) = 1 then ''SEQ6''
      else if card (windowKeys g ex) > 1 then ''AMBIGUOUS-SEQ6'' else ''NONE'')
   \<and> exact (buildMasterIndex catalogOne)
       = [(''06297000001234'', ''Panadol''), (''6297000001234'', ''Panadol'')]
   \<and> matchProduct (parseGs1 sampleEnv (JsString ''(01)00009700000199''))
        (Some (buildMasterIndex catalogOne)) = ([], ''AMBIGUOUS-SEQ6'')"
proof -
  have a: "snd (seq6Tier g ex) =
     (if card (windowKeys g ex) = 1 then ''SEQ6''
      else if card (windowKeys g ex) > 1 then ''AMBIGUOUS-SEQ6'' else ''NONE'')"
    by (simp add: seq6Tier_def Let_def seq6MatchesOf_count)
  have b: "exact (buildMasterIndex catalogOne)
       = [(''06297000001234'', ''Panadol''), (''6297000001234'', ''Panadol'')]"
    by code_simp
  have c: "matchProduct (parseGs1 sampleEnv (JsString ''(01)00009700000199''))
        (Some (buildMasterIndex catalogOne)) = ([], ''AMBIGUOUS-SEQ6'')"
    by code_simp
  from a b c show ?thesis by blast
qed

theorem seq6_counts_map_keys_witness:
  "snd (seq6Tier ''00009700000199'' (exact (buildMasterIndex catalogOne))) = ''AMBIGUOUS-SEQ6''
   \<and> card (windowKeys ''00009700000199'' (exact (buildMasterIndex catalogOne))) > 1"
proof -
  have "seq6Tier ''00009700000199'' (exact (buildMasterIndex catalogOne)) = ([], ''AMBIGUOUS-SEQ6'')"
    by code_simp
  then have s: "snd (seq6Tier ''00009700000199'' (exact (buildMasterIndex catalogOne))) = ''AMBIGUOUS-SEQ6''"
    by simp
  from seq6_counts_map_keys [of "''00009700000199''" "exact (buildMasterIndex catalogOne)"] s
  show ?thesis by (simp split: if_splits)
qed

subsection \<open>Decoding and extracting\<close>

lemma aiLengths_code:
  "map_of aiLengths c = Some n \<Longrightarrow> (length c = 2 \<or> length c = 3) \<and> list_all isDigit c"
proof -
  assume "map_of aiLengths c = Some n"
  then have "(c, n) \<in> set aiLengths" by (rule map_of_SomeD)
  then have "c \<in> fst ` set aiLengths" by (rule rev_image_eqI) simp
  then have "c \<in> {''01'', ''02'', ''10'', ''11'', ''12'', ''13'', ''15'', ''16'', ''17'', ''20'',
      ''21'', ''22'', ''30'', ''37'', ''240'', ''241'', ''242'', ''250'', ''251''}"
    by (simp add: aiLengths_def)
  then show ?thesis by (auto simp: isDigit_def)
qed

lemma decodePart_payload:
  "list_all wellFormedField fs \<Longrightarrow> decodePart (payload fs) = bracketed fs"
proof (induction fs)
  case Nil
  then show ?case by (simp add: payload_def bracketed_def decodePart_Nil)
next
  case (Cons f fs)
  obtain c v where f: "f = (c, v)" by (cases f)
  from Cons.prems f obtain n where n: "map_of aiLengths c = Some n" "0 < n" "length v = n"
    by (auto simp: wellFormedField_def split: option.splits)
  from aiLengths_code [OF n(1)] have len: "length c = 2 \<or> length c = 3" by simp
  from n(2,3) have v: "valueOf n (v @ payload fs) = v" by (simp add: valueOf_def)
  have "decodePart (c @ (v @ payload fs)) = ''('' @ c @ '')'' @ valueOf n (v @ payload fs)
           @ decodePart (drop (length (valueOf n (v @ payload fs))) (v @ payload fs))"
    using n(1) len by (rule decode_code)
  also have "\<dots> = ''('' @ c @ '')'' @ v @ decodePart (payload fs)"
    unfolding v by simp
  finally show ?case using Cons f by (simp add: payload_def bracketed_def)
qed

lemma split_no_bar: "c \<notin> set s \<Longrightarrow> split c s = [s]"
  by (induction s) auto

lemma plainChar_facts:
  "plainChar c \<Longrightarrow> \<not> isSpace c \<and> c \<noteq> CHR 0x1D \<and> c \<noteq> CHR ''|''"
  by (auto simp: plainChar_def isDigit_def isSpace_def)

lemma payload_digits: "list_all wellFormedField fs \<Longrightarrow> list_all isDigit (payload fs)"
proof (induction fs)
  case Nil
  then show ?case by (simp add: payload_def)
next
  case (Cons f fs)
  from Cons.prems obtain n where "map_of aiLengths (fst f) = Some n" "list_all isDigit (snd f)"
    by (auto simp: wellFormedField_def split: option.splits)
  with aiLengths_code [of "fst f" n] Cons show ?case by (simp add: payload_def)
qed

lemma bracketed_plain: "list_all wellFormedField fs \<Longrightarrow> list_all plainChar (bracketed fs)"
proof (induction fs)
  case Nil
  then show ?case by (simp add: bracketed_def)
next
  case (Cons f fs)
  from Cons.prems obtain n where "map_of aiLengths (fst f) = Some n" "list_all isDigit (snd f)"
    by (auto simp: wellFormedField_def split: option.splits)
  with aiLengths_code [of "fst f" n] have "list_all plainChar (fst f)" "list_all plainChar (snd f)"
    by (simp_all add: list_all_iff plainChar_def)
  moreover have "plainChar (CHR ''('')" "plainChar (CHR '')'')" by (simp_all add: plainChar_def)
  ultimately show ?case using Cons by (simp add: bracketed_def)
qed

lemma trim_plain: "list_all plainChar s \<Longrightarrow> trim s = s"
proof -
  assume a: "list_all plainChar s"
  have d: "dropWhile isSpace t = t" if "list_all plainChar t" for t
    using that by (cases t) (auto simp: plainChar_facts)
  from a have "list_all plainChar (rev s)" by (simp add: list_all_iff)
  with a show ?thesis by (simp add: trim_def d)
qed

lemma clean_plain:
  assumes "list_all plainChar s"
  shows "map (\<lambda>x. if x = CHR 0x1D then CHR ''|'' else x) (trim s) = s"
proof -
  from assms have "\<forall>x \<in> set s. x \<noteq> CHR 0x1D"
    by (auto simp: list_all_iff plainChar_facts)
  then have "map (\<lambda>x. if x = CHR 0x1D then CHR ''|'' else x) s = s"
    by (induction s) auto
  with assms show ?thesis by (simp add: trim_plain)
qed

lemma digit_not_bar: "isDigit c \<Longrightarrow> c \<noteq> CHR ''|''"
  by (auto simp: isDigit_def)

lemma payload_no_bar:
  assumes "list_all wellFormedField fs"
  shows "CHR ''|'' \<notin> set (payload fs)"
  using payload_digits [OF assms] digit_not_bar by (auto simp: list_all_iff)

lemma decode_parts_payload:
  assumes "list_all wellFormedField fs"
  shows "concat (map decodePart (split (CHR ''|'') (payload fs))) = bracketed fs"
proof -
  have "split (CHR ''|'') (payload fs) = [payload fs]"
    using payload_no_bar [OF assms] by (rule split_no_bar)
  then show ?thesis using decodePart_payload [OF assms] by simp
qed

lemma bracketed_empty: "bracketed fs = [] \<Longrightarrow> payload fs = []"
  by (cases fs) (simp_all add: bracketed_def payload_def)

lemma convert_payload:
  assumes "list_all wellFormedField fs"
  shows "convertRawToParenthesized (payload fs) = bracketed fs"
  unfolding convertRawToParenthesized_def decode_parts_payload [OF assms] Let_def
  using bracketed_empty by auto

lemma cleanInput_payload:
  assumes "list_all wellFormedField fs"
  shows "cleanInput (payload fs) = bracketed fs"
proof -
  from payload_digits [OF assms] have p: "list_all plainChar (payload fs)"
    by (simp add: list_all_iff plainChar_def)
  from payload_digits [OF assms] have b: "CHR ''('' \<notin> set (payload fs)"
    using isDigit_not_bracket by (auto simp: list_all_iff)
  have "cleanInput (payload fs) = convertRawToParenthesized (payload fs)"
    unfolding cleanInput_def clean_plain [OF p] Let_def using b by simp
  then show ?thesis by (simp add: convert_payload [OF assms])
qed

lemma cleanInput_bracketed:
  assumes "list_all wellFormedField fs"
  shows "cleanInput (bracketed fs) = bracketed fs"
proof (cases fs)
  case Nil
  then show ?thesis
    by (simp add: cleanInput_def bracketed_def trim_def convertRawToParenthesized_def
        decodePart_Nil)
next
  case (Cons f fs')
  then have "CHR ''('' \<in> set (bracketed fs)" by (simp add: bracketed_def)
  then show ?thesis
    unfolding cleanInput_def clean_plain [OF bracketed_plain [OF assms]] Let_def by simp
qed

text \<open>
  C7: for a payload that is a concatenation of well-formed fixed-length fields of the
  dictionary, the decoder gives exactly the bracketed string of those fields, and
  extracting from the payload gives the same result as extracting from that bracketed
  string, field by field; only \<open>raw\<close>, which records the input, differs.
\<close>

theorem roundtrip_fixed_length:
  assumes "list_all wellFormedField fs"
  shows "convertRawToParenthesized (payload fs) = bracketed fs
       \<and> parseGs1 e (JsString (payload fs))
           = withRaw (payload fs) (parseGs1 e (JsString (bracketed fs)))"
proof (cases fs)
  case Nil
  then show ?thesis
    using convert_payload [OF assms] by (simp add: parseGs1_def payload_def bracketed_def)
next
  case (Cons f fs')
  then have ne: "bracketed fs \<noteq> []" by (simp add: bracketed_def)
  from Cons assms have "fst f \<noteq> []"
    by (auto simp: wellFormedField_def aiLengths_def split: option.splits if_splits)
  with Cons have ne': "payload fs \<noteq> []" by (simp add: payload_def)
  from ne ne' show ?thesis
    using convert_payload [OF assms]
    by (simp add: parseGs1_def Let_def cleanInput_payload [OF assms]
        cleanInput_bracketed [OF assms])
qed

theorem roundtrip_fixed_length_witness:
  "list_all wellFormedField [(''01'', ''06297000001234''), (''17'', ''250630'')]
   \<and> convertRawToParenthesized ''010629700000123417250630'' = ''(01)06297000001234(17)250630''
   \<and> parseGs1 sampleEnv (JsString ''010629700000123417250630'')
       = withRaw ''010629700000123417250630''
           (parseGs1 sampleEnv (JsString ''(01)06297000001234(17)250630''))"
proof -
  have w: "list_all wellFormedField [(''01'', ''06297000001234''), (''17'', ''250630'')]"
    by (simp add: wellFormedField_def aiLengths_def isDigit_def)
  have p: "payload [(''01'', ''06297000001234''), (''17'', ''250630'')] = ''010629700000123417250630''"
    "bracketed [(''01'', ''06297000001234''), (''17'', ''250630'')] = ''(01)06297000001234(17)250630''"
    by (simp_all add: payload_def bracketed_def)
  from roundtrip_fixed_length [OF w, of sampleEnv] w show ?thesis
    unfolding p by simp
qed

end
